theory Spec2Isabelle
  imports Main "HOL-Library.Char_ord" "HOL-Library.List_Lexorder" "HOL-Library.AList"
begin

section \<open>Supply-chain product contract (smartcontract.go)\<close>

text \<open>
  A shallow embedding of the chaincode in \<^verbatim>\<open>smartcontract.go\<close>. Go strings are byte
  sequences, so they are modelled as \<^typ>\<open>string\<close> (a list of 8-bit characters). The Fabric
  stub (world state, transaction timestamp) is outside the repository and is modelled as an
  explicit state record that every contract function receives and returns. The JSON encoding
  is Go's \<^verbatim>\<open>encoding/json\<close> applied to the \<^verbatim>\<open>Product\<close> struct.
\<close>

subsection \<open>The Product struct and the error taxonomy\<close>

record Product =
  ID :: string
  Name :: string
  Status :: string
  Owner :: string
  CreatedAt :: string
  UpdatedAt :: string
  Description :: string
  Category :: string

text \<open>The zero value of the struct, as \<^verbatim>\<open>var product Product\<close> declares it.\<close>

definition zero_Product :: Product where
  "zero_Product = \<lparr>ID = [], Name = [], Status = [], Owner = [], CreatedAt = [],
     UpdatedAt = [], Description = [], Category = []\<rparr>"

text \<open>
  The Go code returns \<^verbatim>\<open>error\<close> values built with \<^verbatim>\<open>fmt.Errorf\<close>; the model keeps
  their kind: the timestamp is unavailable, a store read or write failed, stored bytes do not
  decode, the product is absent, the product is already present.
\<close>

datatype error =
  ClockError
  | StoreReadError
  | StoreWriteError
  | DecodeError
  | NotFoundError
  | AlreadyExistsError

subsection \<open>UTF-8 runes (Go's unicode/utf8)\<close>

definition RuneError :: nat where
  "RuneError = 0xFFFD"

text \<open>
  \<^verbatim>\<open>utf8.DecodeRuneInString\<close>: the rune at the head of the string and its width in bytes;
  \<^verbatim>\<open>(RuneError, 1)\<close> for a byte that starts no well-formed encoding, \<^verbatim>\<open>(RuneError, 0)\<close>
  for the empty string. Masks and shifts are written as \<open>mod\<close> and multiplication.
\<close>

fun DecodeRune :: "string \<Rightarrow> nat \<times> nat" where
  "DecodeRune [] = (RuneError, 0)"
| "DecodeRune (c0 # cs) =
    (let s0 = (of_char c0 :: nat) in
     if s0 < 0x80 then (s0, 1)
     else if s0 < 0xC2 \<or> 0xF4 < s0 then (RuneError, 1)
     else
       let sz = (if s0 < 0xE0 then 2 else if s0 < 0xF0 then 3 else (4::nat));
           lo = (if s0 = 0xE0 then 0xA0 else if s0 = 0xF0 then 0x90 else (0x80::nat));
           hi = (if s0 = 0xED then 0x9F else if s0 = 0xF4 then 0x8F else (0xBF::nat))
       in
       if length (c0 # cs) < sz then (RuneError, 1)
       else
         let s1 = (of_char (cs ! 0) :: nat) in
         if s1 < lo \<or> hi < s1 then (RuneError, 1)
         else if sz \<le> 2 then ((s0 mod 32) * 64 + s1 mod 64, 2)
         else
           let s2 = (of_char (cs ! 1) :: nat) in
           if s2 < 0x80 \<or> 0xBF < s2 then (RuneError, 1)
           else if sz \<le> 3 then ((s0 mod 16) * 4096 + (s1 mod 64) * 64 + s2 mod 64, 3)
           else
             let s3 = (of_char (cs ! 2) :: nat) in
             if s3 < 0x80 \<or> 0xBF < s3 then (RuneError, 1)
             else ((s0 mod 8) * 262144 + (s1 mod 64) * 4096 + (s2 mod 64) * 64 + s3 mod 64, 4))"

text \<open>
  \<^verbatim>\<open>utf8.AppendRune\<close>: surrogates and values beyond U+10FFFF are written as U+FFFD.
\<close>

definition EncodeRune :: "nat \<Rightarrow> string" where
  "EncodeRune r =
     (if r \<le> 0x7F then [char_of r]
      else if r \<le> 0x7FF then [char_of (0xC0 + r div 64), char_of (0x80 + r mod 64)]
      else if 0x10FFFF < r \<or> (0xD800 \<le> r \<and> r \<le> 0xDFFF) then [CHR 0xEF, CHR 0xBF, CHR 0xBD]
      else if r \<le> 0xFFFF then
        [char_of (0xE0 + r div 4096), char_of (0x80 + (r div 64) mod 64), char_of (0x80 + r mod 64)]
      else
        [char_of (0xF0 + r div 262144), char_of (0x80 + (r div 4096) mod 64),
         char_of (0x80 + (r div 64) mod 64), char_of (0x80 + r mod 64)])"

text \<open>One rune of a string, coerced to well-formed UTF-8: the bytes and how many were read.\<close>

definition coerce_step :: "string \<Rightarrow> string \<times> nat" where
  "coerce_step s =
    (case s of
       [] \<Rightarrow> ([], 0)
     | c # cs \<Rightarrow>
        if (of_char c :: nat) < 0x80 then ([c], 1)
        else
          (case DecodeRune (c # cs) of
             (r, sz) \<Rightarrow>
               if r = RuneError \<and> sz = 1 then ([CHR 0xEF, CHR 0xBF, CHR 0xBD], sz)
               else (take sz (c # cs), sz)))"

text \<open>
  The string with every byte that is not part of a well-formed encoding replaced by U+FFFD
  (each such byte on its own, as \<^verbatim>\<open>encoding/json\<close> does).
\<close>

fun coerce_utf8 :: "string \<Rightarrow> string" where
  "coerce_utf8 [] = []"
| "coerce_utf8 (c # cs) =
    (case coerce_step (c # cs) of
       (out, n) \<Rightarrow> out @ coerce_utf8 (drop (n - 1) cs))"

text \<open>\<^verbatim>\<open>utf8.ValidString\<close>.\<close>

fun ValidString :: "string \<Rightarrow> bool" where
  "ValidString [] = True"
| "ValidString (c # cs) =
    (case DecodeRune (c # cs) of
       (r, sz) \<Rightarrow> \<not> (r = RuneError \<and> sz = 1) \<and> ValidString (drop (sz - 1) cs))"

text \<open>The shapes of a well-formed encoding of two, three and four bytes.\<close>

definition wf2 :: "char \<Rightarrow> char \<Rightarrow> bool" where
  "wf2 c0 c1 = (0xC2 \<le> (of_char c0 :: nat) \<and> (of_char c0 :: nat) < 0xE0 \<and>
     0x80 \<le> (of_char c1 :: nat) \<and> (of_char c1 :: nat) \<le> 0xBF)"

definition wf3 :: "char \<Rightarrow> char \<Rightarrow> char \<Rightarrow> bool" where
  "wf3 c0 c1 c2 = (0xE0 \<le> (of_char c0 :: nat) \<and> (of_char c0 :: nat) < 0xF0 \<and>
     0x80 \<le> (of_char c1 :: nat) \<and> (of_char c1 :: nat) \<le> 0xBF \<and>
     ((of_char c0 :: nat) = 0xE0 \<longrightarrow> 0xA0 \<le> (of_char c1 :: nat)) \<and>
     ((of_char c0 :: nat) = 0xED \<longrightarrow> (of_char c1 :: nat) \<le> 0x9F) \<and>
     0x80 \<le> (of_char c2 :: nat) \<and> (of_char c2 :: nat) \<le> 0xBF)"

definition wf4 :: "char \<Rightarrow> char \<Rightarrow> char \<Rightarrow> char \<Rightarrow> bool" where
  "wf4 c0 c1 c2 c3 = (0xF0 \<le> (of_char c0 :: nat) \<and> (of_char c0 :: nat) \<le> 0xF4 \<and>
     0x80 \<le> (of_char c1 :: nat) \<and> (of_char c1 :: nat) \<le> 0xBF \<and>
     ((of_char c0 :: nat) = 0xF0 \<longrightarrow> 0x90 \<le> (of_char c1 :: nat)) \<and>
     ((of_char c0 :: nat) = 0xF4 \<longrightarrow> (of_char c1 :: nat) \<le> 0x8F) \<and>
     0x80 \<le> (of_char c2 :: nat) \<and> (of_char c2 :: nat) \<le> 0xBF \<and>
     0x80 \<le> (of_char c3 :: nat) \<and> (of_char c3 :: nat) \<le> 0xBF)"

text \<open>A product with every field coerced to well-formed UTF-8.\<close>

definition coerce_Product :: "Product \<Rightarrow> Product" where
  "coerce_Product p =
    \<lparr>ID = coerce_utf8 (ID p), Name = coerce_utf8 (Name p), Status = coerce_utf8 (Status p),
     Owner = coerce_utf8 (Owner p), CreatedAt = coerce_utf8 (CreatedAt p),
     UpdatedAt = coerce_utf8 (UpdatedAt p), Description = coerce_utf8 (Description p),
     Category = coerce_utf8 (Category p)\<rparr>"

text \<open>Every field of the product is well-formed UTF-8.\<close>

definition valid_Product :: "Product \<Rightarrow> bool" where
  "valid_Product p =
    (ValidString (ID p) \<and> ValidString (Name p) \<and> ValidString (Status p) \<and>
     ValidString (Owner p) \<and> ValidString (CreatedAt p) \<and> ValidString (UpdatedAt p) \<and>
     ValidString (Description p) \<and> ValidString (Category p))"

subsection \<open>JSON encoding of strings (encoding/json, appendString)\<close>

definition hex_digit :: "nat \<Rightarrow> char" where
  "hex_digit n = ''0123456789abcdef'' ! n"

text \<open>
  \<^verbatim>\<open>htmlSafeSet\<close>: the ASCII bytes written as they are. \<^verbatim>\<open>json.Marshal\<close> escapes HTML
  characters, so the double quote, the backslash, \<open><\<close>, \<open>>\<close>, \<open>&\<close> and the control
  characters are not in the set.
\<close>

definition htmlSafe :: "char \<Rightarrow> bool" where
  "htmlSafe c = (0x20 \<le> (of_char c :: nat) \<and> (of_char c :: nat) < 0x80 \<and>
     c \<noteq> CHR 0x22 \<and> c \<noteq> CHR ''&'' \<and> c \<noteq> CHR ''<'' \<and> c \<noteq> CHR ''>'' \<and> c \<noteq> CHR 0x5C)"

definition escape_ascii :: "char \<Rightarrow> string" where
  "escape_ascii c =
     (if c = CHR 0x5C \<or> c = CHR 0x22 then [CHR 0x5C, c]
      else if c = CHR 0x08 then [CHR 0x5C, CHR ''b'']
      else if c = CHR 0x0C then [CHR 0x5C, CHR ''f'']
      else if c = CHR 0x0A then [CHR 0x5C, CHR ''n'']
      else if c = CHR 0x0D then [CHR 0x5C, CHR ''r'']
      else if c = CHR 0x09 then [CHR 0x5C, CHR ''t'']
      else [CHR 0x5C, CHR ''u'', CHR ''0'', CHR ''0'',
            hex_digit ((of_char c :: nat) div 16), hex_digit ((of_char c :: nat) mod 16)])"

text \<open>
  One iteration of the loop of \<^verbatim>\<open>appendString\<close> at a non-empty remainder of the source:
  the bytes appended and the number of source bytes consumed.
\<close>

definition appendString_step :: "string \<Rightarrow> string \<times> nat" where
  "appendString_step s =
    (case s of
       [] \<Rightarrow> ([], 0)
     | c # cs \<Rightarrow>
        if (of_char c :: nat) < 0x80 then
          (if htmlSafe c then [c] else escape_ascii c, 1)
        else
          (case DecodeRune (c # cs) of
             (r, sz) \<Rightarrow>
               if r = RuneError \<and> sz = 1 then (CHR 0x5C # ''ufffd'', sz)
               else if r = 0x2028 \<or> r = 0x2029 then
                 (CHR 0x5C # ''u202'' @ [hex_digit (r mod 16)], sz)
               else (take sz (c # cs), sz)))"

fun appendString_loop :: "string \<Rightarrow> string" where
  "appendString_loop [] = []"
| "appendString_loop (c # cs) =
    (case appendString_step (c # cs) of
       (out, n) \<Rightarrow> out @ appendString_loop (drop (n - 1) cs))"

definition appendString :: "string \<Rightarrow> string" where
  "appendString s = CHR 0x22 # appendString_loop s @ [CHR 0x22]"

text \<open>
  \<^verbatim>\<open>json.Marshal\<close> of a \<^verbatim>\<open>Product\<close>: an object with the eight tagged keys in the
  order of the struct's fields (\<open>encode_Product\<close>). For a struct of strings it returns no
  error.
\<close>

definition json_field :: "string \<Rightarrow> string \<Rightarrow> string" where
  "json_field k v = CHR 0x22 # k @ [CHR 0x22, CHR '':''] @ appendString v"

definition encode_Product :: "Product \<Rightarrow> string" where
  "encode_Product p =
     ''{'' @ json_field ''id'' (ID p) @
     '','' @ json_field ''name'' (Name p) @
     '','' @ json_field ''status'' (Status p) @
     '','' @ json_field ''owner'' (Owner p) @
     '','' @ json_field ''created_at'' (CreatedAt p) @
     '','' @ json_field ''updated_at'' (UpdatedAt p) @
     '','' @ json_field ''description'' (Description p) @
     '','' @ json_field ''category'' (Category p) @ ''}''"

definition json_Marshal :: "Product \<Rightarrow> error + string" where
  "json_Marshal p = Inr (encode_Product p)"

subsection \<open>JSON decoding (encoding/json, scanner and unquote)\<close>

definition hexval :: "char \<Rightarrow> nat option" where
  "hexval c =
     (let b = (of_char c :: nat) in
      if 0x30 \<le> b \<and> b \<le> 0x39 then Some (b - 0x30)
      else if 0x61 \<le> b \<and> b \<le> 0x66 then Some (b - 0x61 + 10)
      else if 0x41 \<le> b \<and> b \<le> 0x46 then Some (b - 0x41 + 10)
      else None)"

text \<open>\<^verbatim>\<open>getu4\<close>: the code unit of a \<^verbatim>\<open>\uXXXX\<close> escape at the head of the input.\<close>

fun getu4 :: "string \<Rightarrow> nat option" where
  "getu4 (b # u # h1 # h2 # h3 # h4 # rest) =
     (if b \<noteq> CHR 0x5C \<or> u \<noteq> CHR ''u'' then None
      else case (hexval h1, hexval h2, hexval h3, hexval h4) of
        (Some a, Some b, Some c, Some d) \<Rightarrow> Some (((a * 16 + b) * 16 + c) * 16 + d)
      | _ \<Rightarrow> None)"
| "getu4 _ = None"

text \<open>
  One step inside a string literal (scanner and \<^verbatim>\<open>unquoteBytes\<close> together): the bytes it
  yields and the number of input bytes it consumes; \<open>None\<close> where the literal is malformed
  (a bad escape, a raw control character). Raw bytes are coerced to well-formed UTF-8 by
  decoding and re-encoding the rune, a lone surrogate escape becomes U+FFFD.
\<close>

definition unquote_step :: "string \<Rightarrow> (string \<times> nat) option" where
  "unquote_step s =
    (case s of
       [] \<Rightarrow> None
     | c # cs \<Rightarrow>
        if c = CHR 0x5C then
          (case cs of
             [] \<Rightarrow> None
           | e # rest \<Rightarrow>
               if e = CHR 0x22 \<or> e = CHR 0x5C \<or> e = CHR ''/'' then Some ([e], 2)
               else if e = CHR ''b'' then Some ([CHR 0x08], 2)
               else if e = CHR ''f'' then Some ([CHR 0x0C], 2)
               else if e = CHR ''n'' then Some ([CHR 0x0A], 2)
               else if e = CHR ''r'' then Some ([CHR 0x0D], 2)
               else if e = CHR ''t'' then Some ([CHR 0x09], 2)
               else if e = CHR ''u'' then
                 (case getu4 (c # cs) of
                    None \<Rightarrow> None
                  | Some rr \<Rightarrow>
                      if 0xD800 \<le> rr \<and> rr < 0xE000 then
                        (case getu4 (drop 6 (c # cs)) of
                           None \<Rightarrow> Some (EncodeRune RuneError, 6)
                         | Some rr1 \<Rightarrow>
                             if rr < 0xDC00 \<and> 0xDC00 \<le> rr1 \<and> rr1 < 0xE000 then
                               Some (EncodeRune ((rr - 0xD800) * 1024 + (rr1 - 0xDC00) + 0x10000), 12)
                             else Some (EncodeRune RuneError, 6))
                      else Some (EncodeRune rr, 6))
               else None)
        else if c = CHR 0x22 \<or> (of_char c :: nat) < 0x20 then None
        else if (of_char c :: nat) < 0x80 then Some ([c], 1)
        else (case DecodeRune (c # cs) of (rr, sz) \<Rightarrow> Some (EncodeRune rr, sz)))"

definition emit :: "string \<Rightarrow> (string \<times> string) option \<Rightarrow> (string \<times> string) option" where
  "emit out res = map_option (\<lambda>(t, rest). (out @ t, rest)) res"

text \<open>
  The content of a string literal whose opening quote has been read, and the input after its
  closing quote.
\<close>

fun unquote :: "string \<Rightarrow> (string \<times> string) option" where
  "unquote [] = None"
| "unquote (c # cs) =
    (if c = CHR 0x22 then Some ([], cs)
     else
       (case unquote_step (c # cs) of
          None \<Rightarrow> None
        | Some (out, n) \<Rightarrow> emit out (unquote (drop (n - 1) cs))))"

subsection \<open>JSON values and the decoder's scanner\<close>

datatype jv =
  JNull
  | JBool bool
  | JNumber string
  | JString string
  | JArray "jv list"
  | JObject "(string \<times> jv) list"

definition isSpace :: "char \<Rightarrow> bool" where
  "isSpace c = (c = CHR '' '' \<or> c = CHR 0x09 \<or> c = CHR 0x0D \<or> c = CHR 0x0A)"

definition skip_ws :: "string \<Rightarrow> string" where
  "skip_ws s = dropWhile isSpace s"

definition isDigit :: "char \<Rightarrow> bool" where
  "isDigit c = (0x30 \<le> (of_char c :: nat) \<and> (of_char c :: nat) \<le> 0x39)"

text \<open>
  The number grammar of the scanner: an optional minus, \<open>0\<close> or a non-zero digit followed by
  digits, an optional fraction, an optional exponent. Each function returns the input left.
\<close>

definition scan_exp :: "string \<Rightarrow> string option" where
  "scan_exp s =
    (case s of
       [] \<Rightarrow> Some []
     | e # t \<Rightarrow>
        if e = CHR ''e'' \<or> e = CHR ''E'' then
          (let t' = (case t of [] \<Rightarrow> [] | g # u \<Rightarrow> if g = CHR ''+'' \<or> g = CHR ''-'' then u else t) in
           case t' of
             [] \<Rightarrow> None
           | d # u \<Rightarrow> if isDigit d then Some (dropWhile isDigit u) else None)
        else Some s)"

definition scan_frac :: "string \<Rightarrow> string option" where
  "scan_frac s =
    (case s of
       [] \<Rightarrow> Some []
     | p # t \<Rightarrow>
        if p = CHR ''.'' then
          (case t of
             [] \<Rightarrow> None
           | d # u \<Rightarrow> if isDigit d then scan_exp (dropWhile isDigit u) else None)
        else scan_exp s)"

definition scan_number :: "string \<Rightarrow> string option" where
  "scan_number s =
    (let s1 = (case s of [] \<Rightarrow> [] | m # t \<Rightarrow> if m = CHR ''-'' then t else s) in
     case s1 of
       [] \<Rightarrow> None
     | d # t \<Rightarrow>
        if d = CHR ''0'' then scan_frac t
        else if isDigit d then scan_frac (dropWhile isDigit t)
        else None)"

text \<open>A value that is not an object or an array: a string, a number or a literal name.\<close>

definition scan_literal :: "string \<Rightarrow> (jv \<times> string) option" where
  "scan_literal s =
    (case s of
       [] \<Rightarrow> None
     | c # t \<Rightarrow>
        if c = CHR 0x22 then map_option (\<lambda>(x, r). (JString x, r)) (unquote t)
        else if c = CHR ''-'' \<or> isDigit c then
          map_option (\<lambda>r. (JNumber (take (length s - length r) s), r)) (scan_number s)
        else if take 4 s = ''true'' then Some (JBool True, drop 4 s)
        else if take 5 s = ''false'' then Some (JBool False, drop 5 s)
        else if take 4 s = ''null'' then Some (JNull, drop 4 s)
        else None)"

text \<open>An object key with its colon: the key and the input after the colon.\<close>

definition scan_key :: "string \<Rightarrow> (string \<times> string) option" where
  "scan_key s =
    (case skip_ws s of
       [] \<Rightarrow> None
     | c # t \<Rightarrow>
        if c = CHR 0x22 then
          (case unquote t of
             None \<Rightarrow> None
           | Some (k, r) \<Rightarrow>
              (case skip_ws r of
                 [] \<Rightarrow> None
               | c1 # t1 \<Rightarrow> if c1 = CHR '':'' then Some (k, t1) else None))
        else None)"

definition maxNestingDepth :: nat where
  "maxNestingDepth = 10000"

text \<open>
  The recursive descent over a JSON text. The first argument bounds the number of calls (the
  recursion is on it), the second is the nesting depth, which the scanner limits to
  \<^const>\<open>maxNestingDepth\<close>. \<open>parse_elems\<close> reads the elements of an array after its opening
  bracket up to the closing one, \<open>parse_members\<close> the members of an object.
\<close>

fun parse_value :: "nat \<Rightarrow> nat \<Rightarrow> string \<Rightarrow> (jv \<times> string) option"
  and parse_elems :: "nat \<Rightarrow> nat \<Rightarrow> string \<Rightarrow> (jv list \<times> string) option"
  and parse_members :: "nat \<Rightarrow> nat \<Rightarrow> string \<Rightarrow> ((string \<times> jv) list \<times> string) option"
where
  "parse_value 0 d s = None"
| "parse_value (Suc n) d s =
    (case skip_ws s of
       [] \<Rightarrow> None
     | c # t \<Rightarrow>
        if c = CHR ''{'' then
          (if maxNestingDepth \<le> d then None
           else case skip_ws t of
             [] \<Rightarrow> None
           | c' # t' \<Rightarrow>
              if c' = CHR ''}'' then Some (JObject [], t')
              else map_option (\<lambda>(ms, r). (JObject ms, r)) (parse_members n (Suc d) (c' # t')))
        else if c = CHR ''['' then
          (if maxNestingDepth \<le> d then None
           else case skip_ws t of
             [] \<Rightarrow> None
           | c' # t' \<Rightarrow>
              if c' = CHR '']'' then Some (JArray [], t')
              else map_option (\<lambda>(vs, r). (JArray vs, r)) (parse_elems n (Suc d) (c' # t')))
        else scan_literal (c # t))"
| "parse_elems 0 d s = None"
| "parse_elems (Suc n) d s =
    (case parse_value n d s of
       None \<Rightarrow> None
     | Some (v, r) \<Rightarrow>
        (case skip_ws r of
           [] \<Rightarrow> None
         | c # t \<Rightarrow>
            if c = CHR '','' then map_option (\<lambda>(vs, r'). (v # vs, r')) (parse_elems n d t)
            else if c = CHR '']'' then Some ([v], t)
            else None))"
| "parse_members 0 d s = None"
| "parse_members (Suc n) d s =
    (case scan_key s of
       None \<Rightarrow> None
     | Some (k, t1) \<Rightarrow>
        (case parse_value n d t1 of
           None \<Rightarrow> None
         | Some (v, r) \<Rightarrow>
            (case skip_ws r of
               [] \<Rightarrow> None
             | c # t \<Rightarrow>
                if c = CHR '','' then map_option (\<lambda>(ms, r'). ((k, v) # ms, r')) (parse_members n d t)
                else if c = CHR ''}'' then Some ([(k, v)], t)
                else None)))"

text \<open>
  \<^verbatim>\<open>checkValid\<close> and the parse together: the whole input is one JSON value between optional
  white space. The bound on the calls is twice the length of the input (every call but one in
  two consumes a byte).
\<close>

definition parse_json :: "string \<Rightarrow> jv option" where
  "parse_json data =
    (case parse_value (Suc (2 * length data)) 0 data of
       None \<Rightarrow> None
     | Some (v, r) \<Rightarrow> if skip_ws r = [] then Some v else None)"

subsection \<open>Decoding an object into a Product (encoding/json, decodeState.object)\<close>

text \<open>
  \<^verbatim>\<open>foldName\<close>: ASCII letters in upper case, other runes replaced by the least rune of
  their simple case-folding orbit. Of the non-ASCII runes only U+017F (long s) and U+212A
  (Kelvin sign) fold to an ASCII letter; every other one folds to a non-ASCII rune, which no
  key of this struct contains, so it is kept as it is.
\<close>

definition foldRune :: "nat \<Rightarrow> nat" where
  "foldRune r = (if r = 0x17F then 0x53 else if r = 0x212A then 0x4B else r)"

definition foldName_step :: "string \<Rightarrow> string \<times> nat" where
  "foldName_step s =
    (case s of
       [] \<Rightarrow> ([], 0)
     | c # cs \<Rightarrow>
        if (of_char c :: nat) < 0x80 then
          ([if 0x61 \<le> (of_char c :: nat) \<and> (of_char c :: nat) \<le> 0x7A
            then char_of ((of_char c :: nat) - 0x20) else c], 1)
        else (case DecodeRune (c # cs) of (r, sz) \<Rightarrow> (EncodeRune (foldRune r), sz)))"

fun foldName :: "string \<Rightarrow> string" where
  "foldName [] = []"
| "foldName (c # cs) =
    (case foldName_step (c # cs) of (out, n) \<Rightarrow> out @ foldName (drop (n - 1) cs))"

text \<open>The keys of the struct's \<^verbatim>\<open>json\<close> tags, in the order of its fields.\<close>

definition field_names :: "string list" where
  "field_names = [''id'', ''name'', ''status'', ''owner'', ''created_at'', ''updated_at'',
     ''description'', ''category'']"

text \<open>The field a key names: by exact match first, by folded name otherwise.\<close>

definition find_field :: "string \<Rightarrow> string option" where
  "find_field k =
    (if k \<in> set field_names then Some k
     else find (\<lambda>f. foldName f = foldName k) field_names)"

definition set_field :: "string \<Rightarrow> string \<Rightarrow> Product \<Rightarrow> Product" where
  "set_field f v p =
    (if f = ''id'' then p\<lparr>ID := v\<rparr>
     else if f = ''name'' then p\<lparr>Name := v\<rparr>
     else if f = ''status'' then p\<lparr>Status := v\<rparr>
     else if f = ''owner'' then p\<lparr>Owner := v\<rparr>
     else if f = ''created_at'' then p\<lparr>CreatedAt := v\<rparr>
     else if f = ''updated_at'' then p\<lparr>UpdatedAt := v\<rparr>
     else if f = ''description'' then p\<lparr>Description := v\<rparr>
     else if f = ''category'' then p\<lparr>Category := v\<rparr>
     else p)"

text \<open>
  The members of the object in their order: an unknown key is skipped, a string is stored in
  its field (a later duplicate overwrites), \<^verbatim>\<open>null\<close> leaves the field as it is, and any
  other value for a known key is an \<^verbatim>\<open>UnmarshalTypeError\<close>.
\<close>

fun decode_members :: "(string \<times> jv) list \<Rightarrow> Product \<Rightarrow> error + Product" where
  "decode_members [] p = Inr p"
| "decode_members ((k, v) # ms) p =
    (case find_field k of
       None \<Rightarrow> decode_members ms p
     | Some f \<Rightarrow>
        (case v of
           JString x \<Rightarrow> decode_members ms (set_field f x p)
         | JNull \<Rightarrow> decode_members ms p
         | _ \<Rightarrow> Inl DecodeError))"

text \<open>
  \<^verbatim>\<open>json.Unmarshal(data, &product)\<close> for a fresh \<^verbatim>\<open>product\<close>: a syntax error or a value
  of the wrong type is an error; \<^verbatim>\<open>null\<close> leaves the zero value.
\<close>

definition json_Unmarshal :: "string \<Rightarrow> error + Product" where
  "json_Unmarshal data =
    (case parse_json data of
       None \<Rightarrow> Inl DecodeError
     | Some v \<Rightarrow>
        (case v of
           JNull \<Rightarrow> Inr zero_Product
         | JObject ms \<Rightarrow> decode_members ms zero_Product
         | _ \<Rightarrow> Inl DecodeError))"

subsection \<open>The transaction context (Fabric stub)\<close>

text \<open>
  The stub is not part of the repository. Its model follows the interface the contract uses:
  a point read that yields the stored bytes or \<^verbatim>\<open>nil\<close> for an absent key, a write, a range
  scan over the whole key space in ascending key order, and the transaction's timestamp.
  Every call can fail: the fields \<open>get_fails\<close>, \<open>put_fails\<close>, \<open>range_fails\<close> and
  \<open>next_fails\<close> say which calls return an error in this transaction, and \<open>tx_timestamp\<close>
  is \<open>None\<close> when the context supplies no timestamp. \<open>rfc3339\<close> is the rendering
  \<^verbatim>\<open>time.Unix(sec, nsec).Format(time.RFC3339)\<close>, which depends on the time zone of the
  process.
\<close>

record stub =
  world :: "(string \<times> string) list"
  tx_timestamp :: "(int \<times> int) option"
  rfc3339 :: "int \<Rightarrow> int \<Rightarrow> string"
  get_fails :: "string \<Rightarrow> bool"
  put_fails :: "string \<Rightarrow> string \<Rightarrow> bool"
  range_fails :: bool
  next_fails :: "nat \<Rightarrow> bool"

definition GetState :: "stub \<Rightarrow> string \<Rightarrow> error + string option" where
  "GetState ctx key =
    (if get_fails ctx key then Inl StoreReadError else Inr (map_of (world ctx) key))"

definition PutState :: "stub \<Rightarrow> string \<Rightarrow> string \<Rightarrow> (error + unit) \<times> stub" where
  "PutState ctx key v =
    (if put_fails ctx key v then (Inl StoreWriteError, ctx)
     else (Inr (), ctx\<lparr>world := AList.update key v (world ctx)\<rparr>))"

definition GetStateByRange :: "stub \<Rightarrow> error + (string \<times> string) list" where
  "GetStateByRange ctx =
    (if range_fails ctx then Inl StoreReadError else Inr (sort_key fst (world ctx)))"

subsection \<open>The contract\<close>

definition getTimestamp :: "stub \<Rightarrow> error + string" where
  "getTimestamp ctx =
    (case tx_timestamp ctx of
       None \<Rightarrow> Inl ClockError
     | Some (seconds, nanos) \<Rightarrow> Inr (rfc3339 ctx seconds nanos))"

definition ProductExists :: "stub \<Rightarrow> string \<Rightarrow> (error + bool) \<times> stub" where
  "ProductExists ctx pid =
    (case GetState ctx pid of
       Inl e \<Rightarrow> (Inl StoreReadError, ctx)
     | Inr productJSON \<Rightarrow> (Inr (productJSON \<noteq> None), ctx))"

definition QueryProduct :: "stub \<Rightarrow> string \<Rightarrow> (error + Product) \<times> stub" where
  "QueryProduct ctx pid =
    (case GetState ctx pid of
       Inl e \<Rightarrow> (Inl StoreReadError, ctx)
     | Inr None \<Rightarrow> (Inl NotFoundError, ctx)
     | Inr (Some productJSON) \<Rightarrow>
        (case json_Unmarshal productJSON of
           Inl e \<Rightarrow> (Inl e, ctx)
         | Inr product \<Rightarrow> (Inr product, ctx)))"

definition seed_assets :: "string \<Rightarrow> Product list" where
  "seed_assets curTime =
    [\<lparr>ID = ''p1'', Name = ''Laptop'', Status = ''Manufactured'', Owner = ''CompanyA'',
       CreatedAt = curTime, UpdatedAt = curTime, Description = ''High-end gaming laptop'',
       Category = ''Electronics''\<rparr>,
     \<lparr>ID = ''p2'', Name = ''Smartphone'', Status = ''Manufactured'', Owner = ''CompanyB'',
       CreatedAt = curTime, UpdatedAt = curTime, Description = ''Latest model smartphone'',
       Category = ''Electronics''\<rparr>]"

text \<open>The loop of \<^verbatim>\<open>InitLedger\<close> over the assets: it stops at the first error.\<close>

fun put_assets :: "Product list \<Rightarrow> stub \<Rightarrow> (error + unit) \<times> stub" where
  "put_assets [] ctx = (Inr (), ctx)"
| "put_assets (asset # assets) ctx =
    (case json_Marshal asset of
       Inl e \<Rightarrow> (Inl e, ctx)
     | Inr assetJSON \<Rightarrow>
        (case PutState ctx (ID asset) assetJSON of
           (Inl e, ctx') \<Rightarrow> (Inl StoreWriteError, ctx')
         | (Inr u, ctx') \<Rightarrow> put_assets assets ctx'))"

definition InitLedger :: "stub \<Rightarrow> (error + unit) \<times> stub" where
  "InitLedger ctx =
    (case getTimestamp ctx of
       Inl e \<Rightarrow> (Inl e, ctx)
     | Inr curTime \<Rightarrow> put_assets (seed_assets curTime) ctx)"

definition CreateProduct ::
  "stub \<Rightarrow> string \<Rightarrow> string \<Rightarrow> string \<Rightarrow> string \<Rightarrow> string \<Rightarrow> (error + unit) \<times> stub" where
  "CreateProduct ctx pid name owner description category =
    (case getTimestamp ctx of
       Inl e \<Rightarrow> (Inl e, ctx)
     | Inr curTime \<Rightarrow>
        (case ProductExists ctx pid of
           (Inl e, ctx1) \<Rightarrow> (Inl e, ctx1)
         | (Inr exists, ctx1) \<Rightarrow>
            if exists then (Inl AlreadyExistsError, ctx1)
            else
              (let product = \<lparr>ID = pid, Name = name, Status = ''Manufactured'', Owner = owner,
                     CreatedAt = curTime, UpdatedAt = curTime, Description = description,
                     Category = category\<rparr>
               in case json_Marshal product of
                    Inl e \<Rightarrow> (Inl e, ctx1)
                  | Inr assetJSON \<Rightarrow> PutState ctx1 pid assetJSON)))"

text \<open>The assignments of \<^verbatim>\<open>UpdateProduct\<close> to the product it has read.\<close>

definition update_fields :: "Product \<Rightarrow> string \<Rightarrow> string \<Rightarrow> string \<Rightarrow> string \<Rightarrow> string \<Rightarrow> Product" where
  "update_fields asset newStatus newOwner newDescription newCategory curTime =
    (let a1 = (if newStatus \<noteq> [] then asset\<lparr>Status := newStatus\<rparr> else asset);
         a2 = (if newOwner \<noteq> [] then a1\<lparr>Owner := newOwner\<rparr> else a1);
         a3 = (if newDescription \<noteq> [] then a2\<lparr>Description := newDescription\<rparr> else a2);
         a4 = (if newCategory \<noteq> [] then a3\<lparr>Category := newCategory\<rparr> else a3)
     in a4\<lparr>UpdatedAt := curTime\<rparr>)"

definition UpdateProduct ::
  "stub \<Rightarrow> string \<Rightarrow> string \<Rightarrow> string \<Rightarrow> string \<Rightarrow> string \<Rightarrow> (error + unit) \<times> stub" where
  "UpdateProduct ctx pid newStatus newOwner newDescription newCategory =
    (case getTimestamp ctx of
       Inl e \<Rightarrow> (Inl e, ctx)
     | Inr curTime \<Rightarrow>
        (case QueryProduct ctx pid of
           (Inl e, ctx1) \<Rightarrow> (Inl e, ctx1)
         | (Inr asset, ctx1) \<Rightarrow>
            (case json_Marshal (update_fields asset newStatus newOwner newDescription newCategory curTime) of
               Inl e \<Rightarrow> (Inl e, ctx1)
             | Inr assetJSON \<Rightarrow> PutState ctx1 pid assetJSON)))"

definition TransferOwnership :: "stub \<Rightarrow> string \<Rightarrow> string \<Rightarrow> (error + unit) \<times> stub" where
  "TransferOwnership ctx pid newOwner =
    (case getTimestamp ctx of
       Inl e \<Rightarrow> (Inl e, ctx)
     | Inr curTime \<Rightarrow>
        (case QueryProduct ctx pid of
           (Inl e, ctx1) \<Rightarrow> (Inl e, ctx1)
         | (Inr asset, ctx1) \<Rightarrow>
            (case json_Marshal (asset\<lparr>Owner := newOwner, UpdatedAt := curTime\<rparr>) of
               Inl e \<Rightarrow> (Inl e, ctx1)
             | Inr assetJSON \<Rightarrow> PutState ctx1 pid assetJSON)))"

text \<open>
  The loop of \<^verbatim>\<open>GetAllProducts\<close> over the iterator: \<open>i\<close> counts the calls of
  \<^verbatim>\<open>Next\<close>, \<open>products\<close> is the slice built so far.
\<close>

fun collect_products :: "stub \<Rightarrow> nat \<Rightarrow> (string \<times> string) list \<Rightarrow> Product list \<Rightarrow> error + Product list" where
  "collect_products ctx i [] products = Inr products"
| "collect_products ctx i ((key, v) # rest) products =
    (if next_fails ctx i then Inl StoreReadError
     else case json_Unmarshal v of
       Inl e \<Rightarrow> Inl e
     | Inr product \<Rightarrow> collect_products ctx (Suc i) rest (products @ [product]))"

definition GetAllProducts :: "stub \<Rightarrow> (error + Product list) \<times> stub" where
  "GetAllProducts ctx =
    (case GetStateByRange ctx of
       Inl e \<Rightarrow> (Inl e, ctx)
     | Inr results \<Rightarrow> (collect_products ctx 0 results [], ctx))"

text \<open>The members that the decoder reads from the encoding of a product.\<close>

definition encoded_members :: "Product \<Rightarrow> (string \<times> jv) list" where
  "encoded_members p =
    [(''id'', JString (coerce_utf8 (ID p))), (''name'', JString (coerce_utf8 (Name p))),
     (''status'', JString (coerce_utf8 (Status p))), (''owner'', JString (coerce_utf8 (Owner p))),
     (''created_at'', JString (coerce_utf8 (CreatedAt p))),
     (''updated_at'', JString (coerce_utf8 (UpdatedAt p))),
     (''description'', JString (coerce_utf8 (Description p))),
     (''category'', JString (coerce_utf8 (Category p)))]"

subsection \<open>Sequences of transactions\<close>

text \<open>The four operations that write, with their arguments.\<close>

datatype call =
  Create string string string string string
  | Seed
  | Update string string string string string
  | Transfer string string

fun apply_call :: "stub \<Rightarrow> call \<Rightarrow> (error + unit) \<times> stub" where
  "apply_call ctx (Create pid name owner description category) =
     CreateProduct ctx pid name owner description category"
| "apply_call ctx Seed = InitLedger ctx"
| "apply_call ctx (Update pid newStatus newOwner newDescription newCategory) =
     UpdateProduct ctx pid newStatus newOwner newDescription newCategory"
| "apply_call ctx (Transfer pid newOwner) = TransferOwnership ctx pid newOwner"

text \<open>
  The world state after a sequence of transactions. Each transaction has its own context (its
  timestamp and the calls that fail in it) and runs on the world state the previous ones left;
  the writes of a transaction that returns an error are not committed.
\<close>

fun run :: "(stub \<times> call) list \<Rightarrow> (string \<times> string) list \<Rightarrow> (string \<times> string) list" where
  "run [] w = w"
| "run ((env, c) # calls) w =
    (case apply_call (env\<lparr>world := w\<rparr>) c of
       (Inl e, ctx') \<Rightarrow> run calls w
     | (Inr u, ctx') \<Rightarrow> run calls (world ctx'))"

text \<open>
  A stored value decodes to a product with a non-empty status whose id is the key (as the
  encoding stores it); a world state in which every stored value does.
\<close>

definition record_ok :: "string \<Rightarrow> string \<Rightarrow> bool" where
  "record_ok k v =
    (case json_Unmarshal v of
       Inl e \<Rightarrow> False
     | Inr p \<Rightarrow> Status p \<noteq> [] \<and> ID p = coerce_utf8 k)"

definition world_ok :: "(string \<times> string) list \<Rightarrow> bool" where
  "world_ok w = list_all (\<lambda>(k, v). record_ok k v) w"

text \<open>
  A transaction context in which no call fails, over a given world state; the timestamp is
  rendered in UTC. It serves as the concrete context of the examples below.
\<close>

definition example_stub :: "(string \<times> string) list \<Rightarrow> stub" where
  "example_stub w = \<lparr>world = w, tx_timestamp = Some (1700000000, 0),
     rfc3339 = (\<lambda>seconds nanos. ''2023-11-14T22:13:20Z''),
     get_fails = (\<lambda>k. False), put_fails = (\<lambda>k v. False), range_fails = False,
     next_fails = (\<lambda>i. False)\<rparr>"

text \<open>
  The context of a later transaction over a given world state: no call fails, and its timestamp
  is some hours after that of \<open>example_stub\<close>.
\<close>

definition later_stub :: "(string \<times> string) list \<Rightarrow> stub" where
  "later_stub w = (example_stub w)\<lparr>tx_timestamp := Some (1700035200, 0),
     rfc3339 := (\<lambda>seconds nanos. ''2023-11-15T08:00:00Z'')\<rparr>"

text \<open>A product of well-formed strings, the first seeded one at the example timestamp.\<close>

definition example_product :: Product where
  "example_product =
    \<lparr>ID = ''p1'', Name = ''Laptop'', Status = ''Manufactured'', Owner = ''CompanyA'',
     CreatedAt = ''2023-11-14T22:13:20Z'', UpdatedAt = ''2023-11-14T22:13:20Z'',
     Description = ''High-end gaming laptop'', Category = ''Electronics''\<rparr>"

text \<open>The second seeded product at the example timestamp.\<close>

definition example_product2 :: Product where
  "example_product2 =
    \<lparr>ID = ''p2'', Name = ''Smartphone'', Status = ''Manufactured'', Owner = ''CompanyB'',
     CreatedAt = ''2023-11-14T22:13:20Z'', UpdatedAt = ''2023-11-14T22:13:20Z'',
     Description = ''Latest model smartphone'', Category = ''Electronics''\<rparr>"

text \<open>No key of the world state holds the empty byte string.\<close>

definition no_empty_value :: "(string \<times> string) list \<Rightarrow> bool" where
  "no_empty_value w = ([] \<notin> set (map snd w))"

section \<open>Properties\<close>

subsection \<open>Arithmetic of the UTF-8 bit fields\<close>

lemma h_div: "d < 64 \<Longrightarrow> (x * 64 + d) div 64 = (x::nat)" by simp
lemma h_mod: "d < 64 \<Longrightarrow> (x * 64 + d) mod 64 = (d::nat)" by simp

lemma horner3: "a * 4096 + b * 64 + c = (a * 64 + b) * 64 + (c::nat)" by simp
lemma horner4: "a * 262144 + b * 4096 + c * 64 + d = ((a * 64 + b) * 64 + c) * 64 + (d::nat)" by simp

lemma div4096: "(x::nat) div 4096 = x div 64 div 64"
  by (simp add: div_mult2_eq[symmetric])
lemma div262144: "(x::nat) div 262144 = x div 64 div 64 div 64"
  by (simp add: div_mult2_eq[symmetric])

lemma utf8_arith2:
  fixes a b :: nat
  assumes "2 \<le> a" "a < 32" "b < 64"
  shows "0x7F < a * 64 + b" "a * 64 + b \<le> 0x7FF" "(a * 64 + b) div 64 = a" "(a * 64 + b) mod 64 = b"
  using assms by simp_all

lemma utf8_arith3:
  fixes a b c :: nat
  assumes "a < 16" "b < 64" "c < 64" "a = 0 \<longrightarrow> 32 \<le> b" "a = 13 \<longrightarrow> b < 32"
  defines "r \<equiv> a * 4096 + b * 64 + c"
  shows "0x7FF < r" "r \<le> 0xFFFF" "\<not> (0xD800 \<le> r \<and> r \<le> 0xDFFF)"
    "r div 4096 = a" "(r div 64) mod 64 = b" "r mod 64 = c"
proof -
  have r: "r = (a * 64 + b) * 64 + c" unfolding r_def by (rule horner3)
  show "0x7FF < r" using assms(1-5) unfolding r_def by (cases "a = 0") simp_all
  show "r \<le> 0xFFFF" using assms(1-5) unfolding r_def by simp
  show "\<not> (0xD800 \<le> r \<and> r \<le> 0xDFFF)"
  proof (cases "a = 13")
    case True
    then show ?thesis using assms(1-5) unfolding r_def by simp
  next
    case False
    then have "a \<le> 12 \<or> 14 \<le> a" by arith
    then show ?thesis using assms(1-5) unfolding r_def by auto
  qed
  have d64: "r div 64 = a * 64 + b" unfolding r using assms(3) by (rule h_div)
  show "r mod 64 = c" unfolding r using assms(3) by (rule h_mod)
  show "(r div 64) mod 64 = b" unfolding d64 using assms(2) by (rule h_mod)
  show "r div 4096 = a" unfolding div4096 d64 using assms(2) by (rule h_div)
qed

lemma utf8_arith4:
  fixes a b c d :: nat
  assumes "a \<le> 4" "b < 64" "c < 64" "d < 64" "a = 0 \<longrightarrow> 16 \<le> b" "a = 4 \<longrightarrow> b < 16"
  defines "r \<equiv> a * 262144 + b * 4096 + c * 64 + d"
  shows "0xFFFF < r" "r \<le> 0x10FFFF"
    "r div 262144 = a" "(r div 4096) mod 64 = b" "(r div 64) mod 64 = c" "r mod 64 = d"
proof -
  have r: "r = ((a * 64 + b) * 64 + c) * 64 + d" unfolding r_def by (rule horner4)
  show "0xFFFF < r" using assms(1-6) unfolding r_def by (cases "a = 0") simp_all
  show "r \<le> 0x10FFFF" using assms(1-6) unfolding r_def by (cases "a = 4") simp_all
  have d64: "r div 64 = (a * 64 + b) * 64 + c" unfolding r using assms(4) by (rule h_div)
  have d4096: "r div 64 div 64 = a * 64 + b" unfolding d64 using assms(3) by (rule h_div)
  show "r mod 64 = d" unfolding r using assms(4) by (rule h_mod)
  show "(r div 64) mod 64 = c" unfolding d64 using assms(3) by (rule h_mod)
  show "(r div 4096) mod 64 = b" unfolding div4096 d4096 using assms(2) by (rule h_mod)
  show "r div 262144 = a" unfolding div262144 d4096 using assms(2) by (rule h_div)
qed

lemma mod_offset:
  fixes s k m :: nat
  assumes "k \<le> s" "s < k + m" "m dvd k"
  shows "s mod m = s - k"
proof -
  from assms(3) obtain q where q: "k = m * q" by (rule dvdE)
  have lt: "s - k < m" using assms(1,2) by linarith
  have "s = q * m + (s - k)" using assms(1) q by (simp add: mult.commute)
  then have "s mod m = (q * m + (s - k)) mod m" by (rule arg_cong)
  also have "\<dots> = (s - k) mod m" by (rule mod_mult_self3)
  also have "\<dots> = s - k" using lt by (rule mod_less)
  finally show ?thesis .
qed

lemma m32: "0xC0 \<le> (s::nat) \<Longrightarrow> s < 0xE0 \<Longrightarrow> s mod 32 = s - 0xC0"
  by (rule mod_offset) simp_all
lemma m16: "0xE0 \<le> (s::nat) \<Longrightarrow> s < 0xF0 \<Longrightarrow> s mod 16 = s - 0xE0"
  by (rule mod_offset) simp_all
lemma m8: "0xF0 \<le> (s::nat) \<Longrightarrow> s < 0xF8 \<Longrightarrow> s mod 8 = s - 0xF0"
  by (rule mod_offset) simp_all
lemma m64: "0x80 \<le> (s::nat) \<Longrightarrow> s < 0xC0 \<Longrightarrow> s mod 64 = s - 0x80"
  by (rule mod_offset) simp_all

lemma lt16_cases:
  "k < 16 \<Longrightarrow> k = 0 \<or> k = 1 \<or> k = 2 \<or> k = 3 \<or> k = 4 \<or> k = 5 \<or> k = 6 \<or> k = 7
    \<or> k = 8 \<or> k = 9 \<or> k = 10 \<or> k = 11 \<or> k = 12 \<or> k = 13 \<or> k = 14 \<or> k = (15::nat)"
proof -
  assume "k < 16"
  then have "k < Suc (Suc (Suc (Suc (Suc (Suc (Suc (Suc (Suc (Suc (Suc (Suc (Suc (Suc (Suc (Suc 0)))))))))))))))"
    by simp
  then have "k = 0 \<or> k = Suc 0 \<or> k = Suc (Suc 0) \<or> k = Suc (Suc (Suc 0))
    \<or> k = Suc (Suc (Suc (Suc 0))) \<or> k = Suc (Suc (Suc (Suc (Suc 0))))
    \<or> k = Suc (Suc (Suc (Suc (Suc (Suc 0))))) \<or> k = Suc (Suc (Suc (Suc (Suc (Suc (Suc 0))))))
    \<or> k = Suc (Suc (Suc (Suc (Suc (Suc (Suc (Suc 0)))))))
    \<or> k = Suc (Suc (Suc (Suc (Suc (Suc (Suc (Suc (Suc 0))))))))
    \<or> k = Suc (Suc (Suc (Suc (Suc (Suc (Suc (Suc (Suc (Suc 0)))))))))
    \<or> k = Suc (Suc (Suc (Suc (Suc (Suc (Suc (Suc (Suc (Suc (Suc 0))))))))))
    \<or> k = Suc (Suc (Suc (Suc (Suc (Suc (Suc (Suc (Suc (Suc (Suc (Suc 0)))))))))))
    \<or> k = Suc (Suc (Suc (Suc (Suc (Suc (Suc (Suc (Suc (Suc (Suc (Suc (Suc 0))))))))))))
    \<or> k = Suc (Suc (Suc (Suc (Suc (Suc (Suc (Suc (Suc (Suc (Suc (Suc (Suc (Suc 0)))))))))))))
    \<or> k = Suc (Suc (Suc (Suc (Suc (Suc (Suc (Suc (Suc (Suc (Suc (Suc (Suc (Suc (Suc 0))))))))))))))"
    unfolding less_Suc_eq by blast
  then show ?thesis by (simp add: eval_nat_numeral)
qed

subsection \<open>Decoding and encoding runes\<close>

lemma of_char_lt_256: "(of_char c :: nat) < 256" by simp

lemma DecodeRune_two:
  assumes "0xC2 \<le> (of_char c0 :: nat)" "(of_char c0 :: nat) < 0xE0"
    "0x80 \<le> (of_char c1 :: nat)" "(of_char c1 :: nat) \<le> 0xBF"
  shows "DecodeRune (c0 # c1 # rest) = ((of_char c0 mod 32) * 64 + of_char c1 mod 64, 2)"
  using assms by (simp add: Let_def)

lemma DecodeRune_three:
  assumes "0xE0 \<le> (of_char c0 :: nat)" "(of_char c0 :: nat) < 0xF0"
    "0x80 \<le> (of_char c1 :: nat)" "(of_char c1 :: nat) \<le> 0xBF"
    "(of_char c0 :: nat) = 0xE0 \<longrightarrow> 0xA0 \<le> (of_char c1 :: nat)"
    "(of_char c0 :: nat) = 0xED \<longrightarrow> (of_char c1 :: nat) \<le> 0x9F"
    "0x80 \<le> (of_char c2 :: nat)" "(of_char c2 :: nat) \<le> 0xBF"
  shows "DecodeRune (c0 # c1 # c2 # rest) =
    ((of_char c0 mod 16) * 4096 + (of_char c1 mod 64) * 64 + of_char c2 mod 64, 3)"
  using assms by (auto simp add: Let_def)

lemma DecodeRune_four:
  assumes "0xF0 \<le> (of_char c0 :: nat)" "(of_char c0 :: nat) \<le> 0xF4"
    "0x80 \<le> (of_char c1 :: nat)" "(of_char c1 :: nat) \<le> 0xBF"
    "(of_char c0 :: nat) = 0xF0 \<longrightarrow> 0x90 \<le> (of_char c1 :: nat)"
    "(of_char c0 :: nat) = 0xF4 \<longrightarrow> (of_char c1 :: nat) \<le> 0x8F"
    "0x80 \<le> (of_char c2 :: nat)" "(of_char c2 :: nat) \<le> 0xBF"
    "0x80 \<le> (of_char c3 :: nat)" "(of_char c3 :: nat) \<le> 0xBF"
  shows "DecodeRune (c0 # c1 # c2 # c3 # rest) =
    ((of_char c0 mod 8) * 262144 + (of_char c1 mod 64) * 4096 + (of_char c2 mod 64) * 64 + of_char c3 mod 64, 4)"
  using assms by (auto simp add: Let_def)

lemma DecodeRune_shape:
  assumes "DecodeRune (c0 # cs) = (r, sz)" and "\<not> (r = RuneError \<and> sz = 1)"
    and "0x80 \<le> (of_char c0 :: nat)"
  shows "(\<exists>c1 rest. cs = c1 # rest \<and> wf2 c0 c1 \<and> sz = 2)
       \<or> (\<exists>c1 c2 rest. cs = c1 # c2 # rest \<and> wf3 c0 c1 c2 \<and> sz = 3)
       \<or> (\<exists>c1 c2 c3 rest. cs = c1 # c2 # c3 # rest \<and> wf4 c0 c1 c2 c3 \<and> sz = 4)"
proof (cases cs)
  case Nil
  with assms show ?thesis by (auto simp: Let_def split: if_splits)
next
  case cs1: (Cons c1 r1)
  show ?thesis
  proof (cases r1)
    case Nil
    with cs1 assms show ?thesis by (auto simp: Let_def wf2_def split: if_splits)
  next
    case cs2: (Cons c2 r2)
    show ?thesis
    proof (cases r2)
      case Nil
      with cs1 cs2 assms show ?thesis by (auto simp: Let_def wf2_def wf3_def split: if_splits)
    next
      case cs3: (Cons c3 r3)
      with cs1 cs2 assms show ?thesis by (auto simp: Let_def wf2_def wf3_def wf4_def split: if_splits)
    qed
  qed
qed

lemma EncodeRune_2:
  assumes "2 \<le> a" "a < 32" "b < 64"
  shows "EncodeRune (a * 64 + b) = [char_of (0xC0 + a), char_of (0x80 + b)]"
proof -
  note f = utf8_arith2[OF assms]
  have "\<not> a * 64 + b \<le> 0x7F" using f(1) by simp
  then show ?thesis
    unfolding EncodeRune_def using f(2-4) by (simp only: if_False if_True simp_thms)
qed

lemma EncodeRune_3:
  assumes "a < 16" "b < 64" "c < 64" "a = 0 \<longrightarrow> 32 \<le> b" "a = 13 \<longrightarrow> b < 32"
  shows "EncodeRune (a * 4096 + b * 64 + c) =
    [char_of (0xE0 + a), char_of (0x80 + b), char_of (0x80 + c)]"
proof -
  note f = utf8_arith3[OF assms]
  have "\<not> a * 4096 + b * 64 + c \<le> 0x7F" "\<not> a * 4096 + b * 64 + c \<le> 0x7FF"
    "\<not> 0x10FFFF < a * 4096 + b * 64 + c" using f(1,2) by linarith+
  then show ?thesis
    unfolding EncodeRune_def using f(2-6) by (simp only: if_False if_True simp_thms)
qed

lemma EncodeRune_4:
  assumes "a \<le> 4" "b < 64" "c < 64" "d < 64" "a = 0 \<longrightarrow> 16 \<le> b" "a = 4 \<longrightarrow> b < 16"
  shows "EncodeRune (a * 262144 + b * 4096 + c * 64 + d) =
    [char_of (0xF0 + a), char_of (0x80 + b), char_of (0x80 + c), char_of (0x80 + d)]"
proof -
  note f = utf8_arith4[OF assms]
  let ?r = "a * 262144 + b * 4096 + c * 64 + d"
  have "\<not> ?r \<le> 0x7F" "\<not> ?r \<le> 0x7FF" "\<not> ?r \<le> 0xFFFF"
    "\<not> (0x10FFFF < ?r \<or> 0xD800 \<le> ?r \<and> ?r \<le> 0xDFFF)" using f(1,2) by linarith+
  then show ?thesis
    unfolding EncodeRune_def using f(3-6) by (simp only: if_False if_True simp_thms)
qed

lemma char_of_back:
  assumes "k \<le> (of_char c :: nat)"
  shows "char_of (k + (of_char c - k)) = c"
proof -
  have "k + (of_char c - k) = (of_char c :: nat)" using assms by (rule le_add_diff_inverse)
  then show ?thesis by (simp only: char_of_char)
qed

lemma Encode_Decode_two:
  assumes "wf2 c0 c1"
  shows "EncodeRune ((of_char c0 mod 32) * 64 + of_char c1 mod 64) = [c0, c1]"
proof -
  let ?s0 = "of_char c0 :: nat" and ?s1 = "of_char c1 :: nat"
  from assms have b0: "0xC2 \<le> ?s0" "?s0 < 0xE0" and b1: "0x80 \<le> ?s1" "?s1 \<le> 0xBF"
    by (simp_all add: wf2_def)
  have m0: "?s0 mod 32 = ?s0 - 0xC0" using b0 by (intro m32) linarith+
  have m1: "?s1 mod 64 = ?s1 - 0x80" using b1 by (intro m64) linarith+
  have "EncodeRune ((?s0 - 0xC0) * 64 + (?s1 - 0x80)) =
      [char_of (0xC0 + (?s0 - 0xC0)), char_of (0x80 + (?s1 - 0x80))]"
    using b0 b1 by (intro EncodeRune_2) linarith+
  also have "char_of (0xC0 + (?s0 - 0xC0)) = c0" using b0 by (intro char_of_back) linarith
  also have "char_of (0x80 + (?s1 - 0x80)) = c1" using b1 by (intro char_of_back) linarith
  finally show ?thesis unfolding m0 m1 .
qed

lemma Encode_Decode_three:
  assumes "wf3 c0 c1 c2"
  shows "EncodeRune ((of_char c0 mod 16) * 4096 + (of_char c1 mod 64) * 64 + of_char c2 mod 64)
    = [c0, c1, c2]"
proof -
  let ?s0 = "of_char c0 :: nat" and ?s1 = "of_char c1 :: nat" and ?s2 = "of_char c2 :: nat"
  from assms have b0: "0xE0 \<le> ?s0" "?s0 < 0xF0" and b1: "0x80 \<le> ?s1" "?s1 \<le> 0xBF"
    and b2: "0x80 \<le> ?s2" "?s2 \<le> 0xBF"
    and e0: "?s0 = 0xE0 \<longrightarrow> 0xA0 \<le> ?s1" and ed: "?s0 = 0xED \<longrightarrow> ?s1 \<le> 0x9F"
    by (simp_all add: wf3_def)
  have m0: "?s0 mod 16 = ?s0 - 0xE0" using b0 by (intro m16)
  have m1: "?s1 mod 64 = ?s1 - 0x80" using b1 by (intro m64) linarith+
  have m2: "?s2 mod 64 = ?s2 - 0x80" using b2 by (intro m64) linarith+
  have c1: "?s0 - 0xE0 = 0 \<longrightarrow> 32 \<le> ?s1 - 0x80" using b0 e0 by linarith
  have c2: "?s0 - 0xE0 = 13 \<longrightarrow> ?s1 - 0x80 < 32" using b0 b1 ed by linarith
  have "EncodeRune ((?s0 - 0xE0) * 4096 + (?s1 - 0x80) * 64 + (?s2 - 0x80)) =
      [char_of (0xE0 + (?s0 - 0xE0)), char_of (0x80 + (?s1 - 0x80)), char_of (0x80 + (?s2 - 0x80))]"
  proof (rule EncodeRune_3)
    show "?s0 - 0xE0 < 16" using b0 by linarith
    show "?s1 - 0x80 < 64" using b1 by linarith
    show "?s2 - 0x80 < 64" using b2 by linarith
  qed (rule c1, rule c2)
  also have "char_of (0xE0 + (?s0 - 0xE0)) = c0" using b0 by (intro char_of_back)
  also have "char_of (0x80 + (?s1 - 0x80)) = c1" using b1 by (intro char_of_back)
  also have "char_of (0x80 + (?s2 - 0x80)) = c2" using b2 by (intro char_of_back)
  finally show ?thesis unfolding m0 m1 m2 .
qed

lemma Encode_Decode_four:
  assumes "wf4 c0 c1 c2 c3"
  shows "EncodeRune ((of_char c0 mod 8) * 262144 + (of_char c1 mod 64) * 4096 +
      (of_char c2 mod 64) * 64 + of_char c3 mod 64) = [c0, c1, c2, c3]"
proof -
  let ?s0 = "of_char c0 :: nat" and ?s1 = "of_char c1 :: nat" and ?s2 = "of_char c2 :: nat"
    and ?s3 = "of_char c3 :: nat"
  from assms have b0: "0xF0 \<le> ?s0" "?s0 \<le> 0xF4" and b1: "0x80 \<le> ?s1" "?s1 \<le> 0xBF"
    and b2: "0x80 \<le> ?s2" "?s2 \<le> 0xBF" and b3: "0x80 \<le> ?s3" "?s3 \<le> 0xBF"
    and e0: "?s0 = 0xF0 \<longrightarrow> 0x90 \<le> ?s1" and e4: "?s0 = 0xF4 \<longrightarrow> ?s1 \<le> 0x8F"
    by (simp_all add: wf4_def)
  have m0: "?s0 mod 8 = ?s0 - 0xF0" using b0 by (intro m8) linarith+
  have m1: "?s1 mod 64 = ?s1 - 0x80" using b1 by (intro m64) linarith+
  have m2: "?s2 mod 64 = ?s2 - 0x80" using b2 by (intro m64) linarith+
  have m3: "?s3 mod 64 = ?s3 - 0x80" using b3 by (intro m64) linarith+
  have c1: "?s0 - 0xF0 = 0 \<longrightarrow> 16 \<le> ?s1 - 0x80" using b0 e0 by linarith
  have c2: "?s0 - 0xF0 = 4 \<longrightarrow> ?s1 - 0x80 < 16" using b0 b1 e4 by linarith
  have "EncodeRune ((?s0 - 0xF0) * 262144 + (?s1 - 0x80) * 4096 + (?s2 - 0x80) * 64 + (?s3 - 0x80)) =
      [char_of (0xF0 + (?s0 - 0xF0)), char_of (0x80 + (?s1 - 0x80)),
       char_of (0x80 + (?s2 - 0x80)), char_of (0x80 + (?s3 - 0x80))]"
  proof (rule EncodeRune_4)
    show "?s0 - 0xF0 \<le> 4" using b0 by linarith
    show "?s1 - 0x80 < 64" using b1 by linarith
    show "?s2 - 0x80 < 64" using b2 by linarith
    show "?s3 - 0x80 < 64" using b3 by linarith
  qed (rule c1, rule c2)
  also have "char_of (0xF0 + (?s0 - 0xF0)) = c0" using b0 by (intro char_of_back)
  also have "char_of (0x80 + (?s1 - 0x80)) = c1" using b1 by (intro char_of_back)
  also have "char_of (0x80 + (?s2 - 0x80)) = c2" using b2 by (intro char_of_back)
  also have "char_of (0x80 + (?s3 - 0x80)) = c3" using b3 by (intro char_of_back)
  finally show ?thesis unfolding m0 m1 m2 m3 .
qed

lemma DecodeRune_wellformed:
  assumes d: "DecodeRune (c0 # cs) = (r, sz)" and ok: "\<not> (r = RuneError \<and> sz = 1)"
    and hi: "0x80 \<le> (of_char c0 :: nat)"
  shows "EncodeRune r = take sz (c0 # cs) \<and> 2 \<le> sz \<and> sz \<le> length (c0 # cs)
    \<and> DecodeRune (take sz (c0 # cs) @ X) = (r, sz)"
proof -
  from DecodeRune_shape[OF d ok hi]
  consider (two) c1 rest where "cs = c1 # rest" "wf2 c0 c1" "sz = 2"
    | (three) c1 c2 rest where "cs = c1 # c2 # rest" "wf3 c0 c1 c2" "sz = 3"
    | (four) c1 c2 c3 rest where "cs = c1 # c2 # c3 # rest" "wf4 c0 c1 c2 c3" "sz = 4"
    by blast
  then show ?thesis
  proof cases
    case two
    have dec: "DecodeRune (c0 # c1 # t) = ((of_char c0 mod 32) * 64 + of_char c1 mod 64, 2)" for t
      using two(2) unfolding wf2_def by (intro DecodeRune_two) simp_all
    from d dec[of rest] two(1) have r: "r = (of_char c0 mod 32) * 64 + of_char c1 mod 64" by simp
    show ?thesis
      using Encode_Decode_two[OF two(2)] dec[of X] by (simp add: two(1,3) r)
  next
    case three
    have dec: "DecodeRune (c0 # c1 # c2 # t) =
        ((of_char c0 mod 16) * 4096 + (of_char c1 mod 64) * 64 + of_char c2 mod 64, 3)" for t
      using three(2) unfolding wf3_def by (intro DecodeRune_three) simp_all
    from d dec[of rest] three(1)
    have r: "r = (of_char c0 mod 16) * 4096 + (of_char c1 mod 64) * 64 + of_char c2 mod 64" by simp
    show ?thesis
      using Encode_Decode_three[OF three(2)] dec[of X] by (simp add: three(1,3) r)
  next
    case four
    have dec: "DecodeRune (c0 # c1 # c2 # c3 # t) =
        ((of_char c0 mod 8) * 262144 + (of_char c1 mod 64) * 4096 + (of_char c2 mod 64) * 64
          + of_char c3 mod 64, 4)" for t
      using four(2) unfolding wf4_def by (intro DecodeRune_four) simp_all
    from d dec[of rest] four(1)
    have r: "r = (of_char c0 mod 8) * 262144 + (of_char c1 mod 64) * 4096
        + (of_char c2 mod 64) * 64 + of_char c3 mod 64" by simp
    show ?thesis
      using Encode_Decode_four[OF four(2)] dec[of X] by (simp add: four(1,3) r)
  qed
qed

subsection \<open>A quoted string is read back coerced\<close>

lemma char_of_eq: "(of_char c :: nat) = n \<Longrightarrow> char_of n = c"
  by auto

lemma hexval_hex_digit: "k < 16 \<Longrightarrow> hexval (hex_digit k) = Some k"
  by (drule lt16_cases) (auto simp: hexval_def hex_digit_def)

lemma hexval_0: "hexval (CHR ''0'') = Some 0" by (simp add: hexval_def)
lemma hexval_2: "hexval (CHR ''2'') = Some 2" by (simp add: hexval_def)
lemma hexval_f: "hexval (CHR ''f'') = Some 15" by (simp add: hexval_def)
lemma hexval_d: "hexval (CHR ''d'') = Some 13" by (simp add: hexval_def)

lemma getu4_escape:
  assumes "hexval h1 = Some a" "hexval h2 = Some b" "hexval h3 = Some c" "hexval h4 = Some d"
  shows "getu4 (CHR 0x5C # CHR ''u'' # h1 # h2 # h3 # h4 # X) = Some (((a * 16 + b) * 16 + c) * 16 + d)"
  using assms by simp

lemma EncodeRune_ascii: "(of_char c :: nat) < 0x80 \<Longrightarrow> EncodeRune (of_char c) = [c]"
  by (simp add: EncodeRune_def)

lemma EncodeRune_RuneError: "EncodeRune RuneError = [CHR 0xEF, CHR 0xBF, CHR 0xBD]"
  by (simp add: EncodeRune_def RuneError_def) (intro conjI char_of_eq; simp)

lemma unquote_step_safe:
  assumes "htmlSafe c"
  shows "unquote_step (c # X) = Some ([c], 1)"
  using assms by (auto simp: htmlSafe_def unquote_step_def)

lemma escape_u00:
  assumes "(of_char c :: nat) < 0x80"
  shows "unquote_step ([CHR 0x5C, CHR ''u'', CHR ''0'', CHR ''0'',
            hex_digit ((of_char c :: nat) div 16), hex_digit ((of_char c :: nat) mod 16)] @ X)
         = Some ([c], 6)"
proof -
  let ?b = "of_char c :: nat"
  have hi: "hexval (hex_digit (?b div 16)) = Some (?b div 16)"
    using assms by (intro hexval_hex_digit) simp
  have lo: "hexval (hex_digit (?b mod 16)) = Some (?b mod 16)"
    by (intro hexval_hex_digit) simp
  have g: "getu4 (CHR 0x5C # CHR ''u'' # CHR ''0'' # CHR ''0'' # hex_digit (?b div 16) #
      hex_digit (?b mod 16) # X) = Some (((0 * 16 + 0) * 16 + ?b div 16) * 16 + ?b mod 16)"
    by (rule getu4_escape[OF hexval_0 hexval_0 hi lo])
  have v: "((0 * 16 + 0) * 16 + ?b div 16) * 16 + ?b mod 16 = ?b" by simp
  have ns: "\<not> (0xD800 \<le> ?b \<and> ?b < 0xE000)" using assms by simp
  show ?thesis
    unfolding unquote_step_def using g assms EncodeRune_ascii[OF assms]
    by (simp add: v del: getu4.simps)
qed

lemma unquote_step_escape:
  assumes "(of_char c :: nat) < 0x80" and "\<not> htmlSafe c"
  shows "unquote_step (escape_ascii c @ X) = Some ([c], length (escape_ascii c))"
proof -
  consider "c = CHR 0x5C \<or> c = CHR 0x22" | "c = CHR 0x08" | "c = CHR 0x0C" | "c = CHR 0x0A"
    | "c = CHR 0x0D" | "c = CHR 0x09"
    | "c \<noteq> CHR 0x5C" "c \<noteq> CHR 0x22" "c \<noteq> CHR 0x08" "c \<noteq> CHR 0x0C" "c \<noteq> CHR 0x0A"
      "c \<noteq> CHR 0x0D" "c \<noteq> CHR 0x09"
    by blast
  then show ?thesis
  proof cases
    case 7
    then have e: "escape_ascii c = [CHR 0x5C, CHR ''u'', CHR ''0'', CHR ''0'',
            hex_digit ((of_char c :: nat) div 16), hex_digit ((of_char c :: nat) mod 16)]"
      by (simp add: escape_ascii_def)
    show ?thesis unfolding e using escape_u00[OF assms(1), of X] by simp
  qed (auto simp: escape_ascii_def unquote_step_def)
qed

lemma escape_ascii_head: "escape_ascii c \<noteq> [] \<and> hd (escape_ascii c) = CHR 0x5C"
  by (simp add: escape_ascii_def)

lemma unquote_step_ufffd:
  "unquote_step (CHR 0x5C # ''ufffd'' @ X) = Some ([CHR 0xEF, CHR 0xBF, CHR 0xBD], 6)"
proof -
  have g: "getu4 (CHR 0x5C # CHR ''u'' # CHR ''f'' # CHR ''f'' # CHR ''f'' # CHR ''d'' # X)
      = Some (((15 * 16 + 15) * 16 + 15) * 16 + 13)"
    by (rule getu4_escape[OF hexval_f hexval_f hexval_f hexval_d])
  have v: "((15 * 16 + 15) * 16 + 15) * 16 + 13 = RuneError" by (simp add: RuneError_def)
  show ?thesis
    unfolding unquote_step_def using g EncodeRune_RuneError
    by (simp add: v del: getu4.simps) (simp add: RuneError_def)
qed

lemma unquote_step_u202:
  assumes "r = 0x2028 \<or> r = 0x2029"
  shows "unquote_step (CHR 0x5C # ''u202'' @ [hex_digit (r mod 16)] @ X) = Some (EncodeRune r, 6)"
proof -
  have lo: "hexval (hex_digit (r mod 16)) = Some (r mod 16)"
    by (intro hexval_hex_digit) simp
  have g: "getu4 (CHR 0x5C # CHR ''u'' # CHR ''2'' # CHR ''0'' # CHR ''2'' # hex_digit (r mod 16) # X)
      = Some (((2 * 16 + 0) * 16 + 2) * 16 + r mod 16)"
    by (rule getu4_escape[OF hexval_2 hexval_0 hexval_2 lo])
  have v: "((2 * 16 + 0) * 16 + 2) * 16 + r mod 16 = r" using assms by auto
  have ns: "r < 0xD800" using assms by auto
  from g have g': "getu4 (CHR 0x5C # CHR ''u'' # CHR ''2'' # CHR ''0'' # CHR ''2'' # hex_digit (r mod 16) # X)
      = Some r" unfolding v .
  show ?thesis
    unfolding unquote_step_def using g' ns
    by (simp del: getu4.simps)
qed

lemma unquote_step_raw:
  assumes d: "DecodeRune (c # cs) = (r, sz)" and ok: "\<not> (r = RuneError \<and> sz = 1)"
    and hi: "0x80 \<le> (of_char c :: nat)"
  shows "unquote_step (take sz (c # cs) @ X) = Some (take sz (c # cs), sz)"
proof -
  note w = DecodeRune_wellformed[OF d ok hi, of X]
  from w have sz: "2 \<le> sz" by simp
  then have t: "take sz (c # cs) @ X = c # (take (sz - 1) cs @ X)"
    by (cases sz) simp_all
  have c: "c \<noteq> CHR 0x5C" "c \<noteq> CHR 0x22" "\<not> (of_char c :: nat) < 0x20" "\<not> (of_char c :: nat) < 0x80"
    using hi by auto
  have "unquote_step (c # (take (sz - 1) cs @ X)) =
      (case DecodeRune (c # (take (sz - 1) cs @ X)) of (rr, n) \<Rightarrow> Some (EncodeRune rr, n))"
    unfolding unquote_step_def using c by (simp del: DecodeRune.simps)
  also have "\<dots> = Some (EncodeRune r, sz)"
    using w unfolding t by (simp del: DecodeRune.simps)
  also have "\<dots> = Some (take sz (c # cs), sz)" using w by simp
  finally show ?thesis unfolding t .
qed

lemma step_correspondence:
  assumes a: "appendString_step (c # cs) = (out, n)"
  shows "\<exists>part. coerce_step (c # cs) = (part, n) \<and> out \<noteq> [] \<and> hd out \<noteq> CHR 0x22 \<and> 1 \<le> n
     \<and> (\<forall>X. unquote_step (out @ X) = Some (part, length out))"
proof (cases "(of_char c :: nat) < 0x80")
  case True
  show ?thesis
  proof (cases "htmlSafe c")
    case safe: True
    from a True safe have "out = [c]" "n = 1" by (simp_all add: appendString_step_def)
    moreover have "c \<noteq> CHR 0x22" using safe by (simp add: htmlSafe_def)
    ultimately show ?thesis
      using True unquote_step_safe[OF safe] by (simp add: coerce_step_def)
  next
    case unsafe: False
    from a True unsafe have o: "out = escape_ascii c" "n = 1" by (simp_all add: appendString_step_def)
    show ?thesis
      using True unquote_step_escape[OF True unsafe] escape_ascii_head[of c]
      by (simp add: coerce_step_def o)
  qed
next
  case False
  then have hi: "0x80 \<le> (of_char c :: nat)" by simp
  obtain r sz where d: "DecodeRune (c # cs) = (r, sz)" by (cases "DecodeRune (c # cs)")
  show ?thesis
  proof (cases "r = RuneError \<and> sz = 1")
    case True
    with a False d have o: "out = CHR 0x5C # ''ufffd''" "n = 1"
      by (simp_all add: appendString_step_def del: DecodeRune.simps)
    have "unquote_step (out @ X) = Some ([CHR 0xEF, CHR 0xBF, CHR 0xBD], length out)" for X
      unfolding o using unquote_step_ufffd[of X] by simp
    then show ?thesis
      using True False d by (simp add: coerce_step_def o del: DecodeRune.simps)
  next
    case valid: False
    note w = DecodeRune_wellformed[OF d valid hi]
    from w have sz: "2 \<le> sz" "sz \<le> length (c # cs)" and enc: "EncodeRune r = take sz (c # cs)"
      by simp_all
    have part: "coerce_step (c # cs) = (take sz (c # cs), sz)"
      using False d valid by (auto simp add: coerce_step_def simp del: DecodeRune.simps)
    show ?thesis
    proof (cases "r = 0x2028 \<or> r = 0x2029")
      case True
      with a False d valid have o: "out = CHR 0x5C # ''u202'' @ [hex_digit (r mod 16)]" "n = sz"
        by (auto simp add: appendString_step_def simp del: DecodeRune.simps split: if_splits)
      have "unquote_step (out @ X) = Some (take sz (c # cs), length out)" for X
        unfolding o using unquote_step_u202[OF True, of X] enc by simp
      then show ?thesis using part sz by (simp add: o del: DecodeRune.simps)
    next
      case False
      with a \<open>\<not> (of_char c :: nat) < 0x80\<close> d valid have o: "out = take sz (c # cs)" "n = sz"
        by (auto simp add: appendString_step_def simp del: DecodeRune.simps split: if_splits)
      have len: "length out = sz" using sz by (simp add: o)
      have hd: "out \<noteq> []" "hd out = c" using sz unfolding o by (cases sz; simp)+
      have "c \<noteq> CHR 0x22" using hi by auto
      moreover have "unquote_step (out @ X) = Some (take sz (c # cs), length out)" for X
        unfolding len unfolding o by (rule unquote_step_raw[OF d valid hi])
      ultimately show ?thesis using part sz hd by (simp add: o(2) del: DecodeRune.simps)
    qed
  qed
qed

lemma unquote_appendString_loop:
  "unquote (appendString_loop s @ CHR 0x22 # rest) = Some (coerce_utf8 s, rest)"
proof (induction s rule: appendString_loop.induct)
  case 1
  show ?case by simp
next
  case (2 c cs)
  obtain out n where a: "appendString_step (c # cs) = (out, n)"
    by (cases "appendString_step (c # cs)")
  from step_correspondence[OF a] obtain part where
    p: "coerce_step (c # cs) = (part, n)" and ne: "out \<noteq> []" and h: "hd out \<noteq> CHR 0x22"
    and n: "1 \<le> n" and u: "\<And>X. unquote_step (out @ X) = Some (part, length out)"
    by blast
  let ?X = "appendString_loop (drop (n - 1) cs) @ CHR 0x22 # rest"
  from ne obtain x xs where os: "out = x # xs" by (cases out) auto
  have IH: "unquote ?X = Some (coerce_utf8 (drop (n - 1) cs), rest)"
    using "2.IH"[OF a[symmetric]] by simp
  have "unquote (appendString_loop (c # cs) @ CHR 0x22 # rest) = unquote (x # (xs @ ?X))"
    using a os by simp
  also have "\<dots> = emit part (unquote (drop (length out - 1) (xs @ ?X)))"
    using h u[of ?X] unfolding os by simp
  also have "drop (length out - 1) (xs @ ?X) = ?X" by (simp add: os)
  also have "emit part (unquote ?X) = Some (part @ coerce_utf8 (drop (n - 1) cs), rest)"
    unfolding IH by (simp add: emit_def)
  also have "part @ coerce_utf8 (drop (n - 1) cs) = coerce_utf8 (c # cs)"
    using p by simp
  finally show ?case .
qed

lemma safe_string_loop:
  "\<forall>c\<in>set k. htmlSafe c \<Longrightarrow> appendString_loop k = k \<and> coerce_utf8 k = k"
proof (induction k)
  case Nil
  show ?case by simp
next
  case (Cons c k)
  then have "htmlSafe c" by simp
  then have "(of_char c :: nat) < 0x80" by (simp add: htmlSafe_def)
  with Cons \<open>htmlSafe c\<close> show ?case
    by (simp add: appendString_step_def coerce_step_def)
qed

lemma unquote_safe_key:
  assumes "\<forall>c\<in>set k. htmlSafe c"
  shows "unquote (k @ CHR 0x22 # X) = Some (k, X)"
  using unquote_appendString_loop[of k X] safe_string_loop[OF assms] by simp

lemma unquote_appendString:
  "unquote (tl (appendString v) @ X) = Some (coerce_utf8 v, X)"
  using unquote_appendString_loop[of v X] by (simp add: appendString_def)

lemma ValidString_coerce: "ValidString s \<Longrightarrow> coerce_utf8 s = s"
proof (induction s rule: coerce_utf8.induct)
  case 1
  show ?case by simp
next
  case (2 c cs)
  obtain r sz where d: "DecodeRune (c # cs) = (r, sz)" by (cases "DecodeRune (c # cs)")
  from "2.prems" d have ok: "\<not> (r = RuneError \<and> sz = 1)" and v: "ValidString (drop (sz - 1) cs)"
    by (simp_all del: DecodeRune.simps)
  show ?case
  proof (cases "(of_char c :: nat) < 0x80")
    case True
    then have sz: "sz = 1" using d by simp
    have st: "coerce_step (c # cs) = ([c], 1)" using True by (simp add: coerce_step_def)
    from v sz "2.IH"[OF st[symmetric]] show ?thesis using st by simp
  next
    case False
    then have hi: "0x80 \<le> (of_char c :: nat)" by simp
    have st: "coerce_step (c # cs) = (take sz (c # cs), sz)"
      using False d ok by (auto simp add: coerce_step_def simp del: DecodeRune.simps)
    from DecodeRune_wellformed[OF d ok hi] have sz: "2 \<le> sz" by simp
    then have tk: "take sz (c # cs) = c # take (sz - 1) cs" by (cases sz) simp_all
    from v "2.IH"[OF st[symmetric]] have "coerce_utf8 (drop (sz - 1) cs) = drop (sz - 1) cs" by simp
    then show ?thesis using st tk by simp
  qed
qed

lemma coerce_utf8_Nil_iff: "coerce_utf8 s = [] \<longleftrightarrow> s = []"
proof (cases s)
  case Nil
  then show ?thesis by simp
next
  case (Cons c cs)
  obtain out n where a: "appendString_step (c # cs) = (out, n)"
    by (cases "appendString_step (c # cs)")
  from step_correspondence[OF a] obtain part where
    p: "coerce_step (c # cs) = (part, n)" and u: "unquote_step (out @ []) = Some (part, length out)"
    and ne: "out \<noteq> []"
    by blast
  have "part \<noteq> []"
  proof (cases "(of_char c :: nat) < 0x80")
    case True
    with p show ?thesis by (auto simp: coerce_step_def)
  next
    case False
    then have hi: "0x80 \<le> (of_char c :: nat)" by simp
    obtain r sz where d: "DecodeRune (c # cs) = (r, sz)" by (cases "DecodeRune (c # cs)")
    show ?thesis
    proof (cases "r = RuneError \<and> sz = 1")
      case True
      with p d False show ?thesis by (auto simp: coerce_step_def simp del: DecodeRune.simps)
    next
      case ok: False
      from DecodeRune_wellformed[OF d ok hi] have "2 \<le> sz" by simp
      then have "take sz (c # cs) \<noteq> []" by (cases sz) simp_all
      with p d False ok show ?thesis by (auto simp: coerce_step_def simp del: DecodeRune.simps)
    qed
  qed
  with p Cons show ?thesis by simp
qed

subsection \<open>An encoded product is read back coerced\<close>

lemma skip_ws_nonspace: "\<not> isSpace c \<Longrightarrow> skip_ws (c # cs) = c # cs"
  by (simp add: skip_ws_def)

lemma skip_ws_Nil: "skip_ws [] = []"
  by (simp add: skip_ws_def)

lemma not_space_punct:
  "\<not> isSpace (CHR 0x22)" "\<not> isSpace (CHR '':'')" "\<not> isSpace (CHR '','')"
  "\<not> isSpace (CHR ''{'')" "\<not> isSpace (CHR ''}'')"
  by (simp_all add: isSpace_def)

lemma scan_key_field:
  assumes "\<forall>c\<in>set k. htmlSafe c"
  shows "scan_key (json_field k v @ X) = Some (k, appendString v @ X)"
proof -
  have "scan_key (json_field k v @ X) = scan_key (CHR 0x22 # (k @ CHR 0x22 # (CHR '':'' # appendString v @ X)))"
    by (simp add: json_field_def)
  also have "\<dots> = Some (k, appendString v @ X)"
    unfolding scan_key_def
    by (simp add: skip_ws_nonspace not_space_punct unquote_safe_key[OF assms])
  finally show ?thesis .
qed

lemma parse_value_string:
  "parse_value (Suc n) d (appendString v @ X) = Some (JString (coerce_utf8 v), X)"
proof -
  have a: "appendString v @ X = CHR 0x22 # (tl (appendString v) @ X)"
    by (simp add: appendString_def)
  show ?thesis
    unfolding a
    by (simp add: skip_ws_nonspace not_space_punct scan_literal_def unquote_appendString)
qed

lemma parse_members_more:
  assumes "\<forall>c\<in>set k. htmlSafe c"
  shows "parse_members (Suc (Suc n)) d (json_field k v @ CHR '','' # X) =
    map_option (\<lambda>(ms, r'). ((k, JString (coerce_utf8 v)) # ms, r')) (parse_members (Suc n) d X)"
  by (subst parse_members.simps(2))
     (simp add: scan_key_field[OF assms] parse_value_string skip_ws_nonspace not_space_punct
      del: parse_value.simps parse_members.simps)

lemma parse_members_last:
  assumes "\<forall>c\<in>set k. htmlSafe c"
  shows "parse_members (Suc (Suc n)) d (json_field k v @ CHR ''}'' # X) =
    Some ([(k, JString (coerce_utf8 v))], X)"
  by (subst parse_members.simps(2))
     (simp add: scan_key_field[OF assms] parse_value_string skip_ws_nonspace not_space_punct
      del: parse_value.simps parse_members.simps)

lemma safe_field_names:
  "\<forall>c\<in>set ''id''. htmlSafe c" "\<forall>c\<in>set ''name''. htmlSafe c"
  "\<forall>c\<in>set ''status''. htmlSafe c" "\<forall>c\<in>set ''owner''. htmlSafe c"
  "\<forall>c\<in>set ''created_at''. htmlSafe c" "\<forall>c\<in>set ''updated_at''. htmlSafe c"
  "\<forall>c\<in>set ''description''. htmlSafe c" "\<forall>c\<in>set ''category''. htmlSafe c"
  by (simp_all add: htmlSafe_def)

lemma parse_value_object:
  "parse_value (Suc n) 0 (CHR ''{'' # json_field k v @ Y) =
    map_option (\<lambda>(ms, r). (JObject ms, r)) (parse_members n (Suc 0) (json_field k v @ Y))"
  by (simp add: json_field_def skip_ws_nonspace not_space_punct maxNestingDepth_def
      del: parse_members.simps)

lemma encode_Product_shape:
  "encode_Product p @ X =
    CHR ''{'' # json_field ''id'' (ID p) @ CHR '','' # json_field ''name'' (Name p) @
    CHR '','' # json_field ''status'' (Status p) @ CHR '','' # json_field ''owner'' (Owner p) @
    CHR '','' # json_field ''created_at'' (CreatedAt p) @
    CHR '','' # json_field ''updated_at'' (UpdatedAt p) @
    CHR '','' # json_field ''description'' (Description p) @
    CHR '','' # json_field ''category'' (Category p) @ CHR ''}'' # X"
  by (simp add: encode_Product_def)

lemma parse_value_encode_Product:
  "parse_value (Suc (Suc (Suc (Suc (Suc (Suc (Suc (Suc (Suc (Suc m)))))))))) 0 (encode_Product p @ X)
    = Some (JObject (encoded_members p), X)"
  unfolding encode_Product_shape parse_value_object
  by (simp only: parse_members_more[OF safe_field_names(1)] parse_members_more[OF safe_field_names(2)]
      parse_members_more[OF safe_field_names(3)] parse_members_more[OF safe_field_names(4)]
      parse_members_more[OF safe_field_names(5)] parse_members_more[OF safe_field_names(6)]
      parse_members_more[OF safe_field_names(7)] parse_members_last[OF safe_field_names(8)]
      option.map prod.case encoded_members_def)

lemma find_field_names:
  "find_field ''id'' = Some ''id''" "find_field ''name'' = Some ''name''"
  "find_field ''status'' = Some ''status''" "find_field ''owner'' = Some ''owner''"
  "find_field ''created_at'' = Some ''created_at''" "find_field ''updated_at'' = Some ''updated_at''"
  "find_field ''description'' = Some ''description''" "find_field ''category'' = Some ''category''"
  by (simp_all add: find_field_def field_names_def)

lemma decode_encoded_members:
  "decode_members (encoded_members p) zero_Product = Inr (coerce_Product p)"
  by (simp add: encoded_members_def find_field_names set_field_def zero_Product_def
      coerce_Product_def)

lemma encode_Product_length: "5 \<le> length (encode_Product p)"
  by (simp add: encode_Product_def)

lemma parse_json_encode_Product:
  "parse_json (encode_Product p) = Some (JObject (encoded_members p))"
proof -
  from encode_Product_length[of p] obtain k where k: "length (encode_Product p) = 5 + k"
    using le_Suc_ex by blast
  define m where "m = Suc (2 * k)"
  have m: "2 * length (encode_Product p) = Suc (Suc (Suc (Suc (Suc (Suc (Suc (Suc (Suc m))))))))"
    unfolding k m_def by simp
  show ?thesis
    unfolding parse_json_def m
    using parse_value_encode_Product[of m p "[]"]
    by (simp add: skip_ws_Nil del: parse_value.simps)
qed

lemma Unmarshal_Marshal:
  "json_Unmarshal (encode_Product p) = Inr (coerce_Product p)"
  by (simp add: json_Unmarshal_def parse_json_encode_Product decode_encoded_members)

lemma coerce_valid_Product: "valid_Product p \<Longrightarrow> coerce_Product p = p"
  by (simp add: valid_Product_def coerce_Product_def ValidString_coerce)

subsection \<open>Well-formed examples\<close>

lemma ascii_ValidString: "\<forall>c\<in>set s. (of_char c :: nat) < 0x80 \<Longrightarrow> ValidString s"
  by (induction s) (simp_all add: RuneError_def)

lemma valid_example_product: "valid_Product example_product"
  by (simp add: valid_Product_def example_product_def RuneError_def)

lemma coerce_invalid_byte: "coerce_utf8 [CHR 0xFF] = [CHR 0xEF, CHR 0xBF, CHR 0xBD]"
  by (simp add: coerce_step_def RuneError_def)

subsection \<open>Encoding and decoding a product\<close>

text \<open>
  Claim C9, amended. \<open>json.Marshal\<close> of a product never fails, and decoding its result
  yields the product with every field coerced to well-formed UTF-8: the encoder writes each
  byte that is not part of a well-formed encoding as the escape of U+FFFD. For a product whose
  eight fields are well-formed UTF-8 the decoded product is the original, field for field.
\<close>

theorem marshal_unmarshal_roundtrip:
  "json_Marshal p = Inr (encode_Product p)
   \<and> json_Unmarshal (encode_Product p) = Inr (coerce_Product p)
   \<and> (valid_Product p \<longrightarrow> json_Unmarshal (encode_Product p) = Inr p)"
  by (simp add: json_Marshal_def Unmarshal_Marshal coerce_valid_Product)

theorem marshal_unmarshal_roundtrip_witness:
  "valid_Product example_product
   \<and> json_Marshal example_product = Inr (encode_Product example_product)
   \<and> json_Unmarshal (encode_Product example_product) = Inr example_product"
  using marshal_unmarshal_roundtrip[of example_product] valid_example_product by blast

text \<open>
  The claim as stated, for any string values, fails for a name that is the single byte
  \<open>0xFF\<close>: the decoded name is the three bytes of U+FFFD.
\<close>

theorem roundtrip_invalid_utf8_counterexample:
  "json_Marshal (example_product\<lparr>Name := [CHR 0xFF]\<rparr>)
     = Inr (encode_Product (example_product\<lparr>Name := [CHR 0xFF]\<rparr>))
   \<and> json_Unmarshal (encode_Product (example_product\<lparr>Name := [CHR 0xFF]\<rparr>))
     = Inr (example_product\<lparr>Name := [CHR 0xEF, CHR 0xBF, CHR 0xBD]\<rparr>)
   \<and> json_Unmarshal (encode_Product (example_product\<lparr>Name := [CHR 0xFF]\<rparr>))
     \<noteq> Inr (example_product\<lparr>Name := [CHR 0xFF]\<rparr>)"
proof -
  have c: "coerce_Product (example_product\<lparr>Name := [CHR 0xFF]\<rparr>)
      = example_product\<lparr>Name := [CHR 0xEF, CHR 0xBF, CHR 0xBD]\<rparr>"
    by (simp add: coerce_Product_def example_product_def coerce_step_def RuneError_def)
  show ?thesis
    by (simp add: json_Marshal_def Unmarshal_Marshal c) (simp add: example_product_def)
qed

subsection \<open>Writes to the world state\<close>

lemma map_of_PutState:
  "PutState ctx k v = (Inr u, ctx') \<Longrightarrow> map_of (world ctx') = (map_of (world ctx))(k \<mapsto> v)"
  by (auto simp: PutState_def update_conv' split: if_splits)

lemma PutState_keeps:
  "map_of (world ctx) k \<noteq> None \<Longrightarrow> map_of (world (snd (PutState ctx k' v))) k \<noteq> None"
  by (auto simp: PutState_def update_conv')

lemma put_assets_keeps:
  "map_of (world ctx) k \<noteq> None \<Longrightarrow> map_of (world (snd (put_assets as ctx))) k \<noteq> None"
proof (induction as arbitrary: ctx)
  case Nil
  then show ?case by simp
next
  case (Cons a as)
  show ?case
  proof (cases "put_fails ctx (ID a) (projr (json_Marshal a))")
    case True
    with Cons.prems show ?thesis by (simp add: json_Marshal_def PutState_def)
  next
    case False
    with Cons.prems Cons.IH[of "ctx\<lparr>world := AList.update (ID a) (projr (json_Marshal a)) (world ctx)\<rparr>"]
    show ?thesis by (simp add: json_Marshal_def PutState_def update_conv')
  qed
qed

subsection \<open>Creating a product that exists\<close>

text \<open>
  Claim C2. When the transaction timestamp is available and the store holds a value under the
  id, \<open>CreateProduct\<close> returns the already-exists error and the context it returns is the
  one it received: nothing was written, and the value under the id is the one that was there.
\<close>

theorem create_existing_fails:
  assumes "tx_timestamp ctx = Some ts" and "GetState ctx pid = Inr (Some v)"
  shows "CreateProduct ctx pid name owner description category = (Inl AlreadyExistsError, ctx)
    \<and> GetState (snd (CreateProduct ctx pid name owner description category)) pid = Inr (Some v)"
  using assms by (cases ts) (simp add: CreateProduct_def getTimestamp_def ProductExists_def)

theorem create_existing_fails_witness:
  "CreateProduct (example_stub [(''p1'', ''x'')]) ''p1'' ''n'' ''o'' ''d'' ''c''
     = (Inl AlreadyExistsError, example_stub [(''p1'', ''x'')])
   \<and> GetState (snd (CreateProduct (example_stub [(''p1'', ''x'')]) ''p1'' ''n'' ''o'' ''d'' ''c'')) ''p1''
     = Inr (Some ''x'')"
  by (rule create_existing_fails[where ts = "(1700000000, 0)"])
     (simp_all add: example_stub_def GetState_def)

subsection \<open>No operation deletes a key\<close>

text \<open>
  Claim C10. A key that holds a value before any of the seven operations runs still holds a
  value in the context the operation returns, whether the operation succeeds or fails.
\<close>

theorem never_deletes:
  assumes "map_of (world ctx) k \<noteq> None"
  shows "map_of (world (snd (CreateProduct ctx pid name owner description category))) k \<noteq> None
    \<and> map_of (world (snd (InitLedger ctx))) k \<noteq> None
    \<and> map_of (world (snd (UpdateProduct ctx pid newStatus newOwner newDescription newCategory))) k \<noteq> None
    \<and> map_of (world (snd (TransferOwnership ctx pid newOwner))) k \<noteq> None
    \<and> map_of (world (snd (QueryProduct ctx pid))) k \<noteq> None
    \<and> map_of (world (snd (ProductExists ctx pid))) k \<noteq> None
    \<and> map_of (world (snd (GetAllProducts ctx))) k \<noteq> None"
proof -
  have "map_of (world (snd (CreateProduct ctx pid name owner description category))) k \<noteq> None"
    using assms PutState_keeps[OF assms]
    by (auto simp: CreateProduct_def getTimestamp_def ProductExists_def json_Marshal_def Let_def
        split: option.splits sum.splits prod.splits)
  moreover have "map_of (world (snd (InitLedger ctx))) k \<noteq> None"
    using assms put_assets_keeps[OF assms]
    by (auto simp: InitLedger_def getTimestamp_def split: option.splits sum.splits prod.splits)
  moreover have "map_of (world (snd (UpdateProduct ctx pid newStatus newOwner newDescription newCategory))) k \<noteq> None"
    using assms PutState_keeps[OF assms]
    by (auto simp: UpdateProduct_def getTimestamp_def QueryProduct_def json_Marshal_def
        split: option.splits sum.splits prod.splits)
  moreover have "map_of (world (snd (TransferOwnership ctx pid newOwner))) k \<noteq> None"
    using assms PutState_keeps[OF assms]
    by (auto simp: TransferOwnership_def getTimestamp_def QueryProduct_def json_Marshal_def
        split: option.splits sum.splits prod.splits)
  moreover have "map_of (world (snd (QueryProduct ctx pid))) k \<noteq> None"
    using assms by (auto simp: QueryProduct_def split: option.splits sum.splits)
  moreover have "map_of (world (snd (ProductExists ctx pid))) k \<noteq> None"
    using assms by (auto simp: ProductExists_def split: option.splits sum.splits)
  moreover have "map_of (world (snd (GetAllProducts ctx))) k \<noteq> None"
    using assms by (auto simp: GetAllProducts_def split: option.splits sum.splits)
  ultimately show ?thesis by blast
qed

subsection \<open>Stored values are never empty\<close>

lemma encode_Product_nonempty: "encode_Product p \<noteq> []"
  by (simp add: encode_Product_def)

lemma snd_set_update: "snd ` set (AList.update k v al) \<subseteq> insert v (snd ` set al)"
  by (induction al) auto

lemma no_empty_value_PutState:
  "no_empty_value (world ctx) \<Longrightarrow> v \<noteq> [] \<Longrightarrow> no_empty_value (world (snd (PutState ctx k v)))"
  using snd_set_update[of k v "world ctx"] by (auto simp: no_empty_value_def PutState_def)

lemma no_empty_value_put_assets:
  "no_empty_value (world ctx) \<Longrightarrow> no_empty_value (world (snd (put_assets as ctx)))"
proof (induction as arbitrary: ctx)
  case Nil
  then show ?case by simp
next
  case (Cons a as)
  have step: "no_empty_value (world (snd (PutState ctx (ID a) (encode_Product a))))"
    using Cons.prems by (rule no_empty_value_PutState) (rule encode_Product_nonempty)
  show ?case
  proof (cases "PutState ctx (ID a) (encode_Product a)")
    case (Pair r ctx')
    with step Cons.IH[of ctx'] show ?thesis
      by (cases r) (simp_all add: json_Marshal_def)
  qed
qed

lemma no_empty_value_preserved:
  assumes "no_empty_value (world ctx)"
  shows "no_empty_value (world (snd (CreateProduct ctx pid name owner description category)))"
    and "no_empty_value (world (snd (InitLedger ctx)))"
    and "no_empty_value (world (snd (UpdateProduct ctx pid newStatus newOwner newDescription newCategory)))"
    and "no_empty_value (world (snd (TransferOwnership ctx pid newOwner)))"
proof -
  show "no_empty_value (world (snd (CreateProduct ctx pid name owner description category)))"
    using assms no_empty_value_PutState[OF assms encode_Product_nonempty]
    by (auto simp: CreateProduct_def getTimestamp_def ProductExists_def json_Marshal_def Let_def
        split: option.splits sum.splits prod.splits)
  show "no_empty_value (world (snd (InitLedger ctx)))"
    using assms no_empty_value_put_assets[OF assms]
    by (auto simp: InitLedger_def getTimestamp_def split: option.splits sum.splits prod.splits)
  show "no_empty_value (world (snd (UpdateProduct ctx pid newStatus newOwner newDescription newCategory)))"
    using assms no_empty_value_PutState[OF assms encode_Product_nonempty]
    by (auto simp: UpdateProduct_def getTimestamp_def QueryProduct_def json_Marshal_def
        split: option.splits sum.splits prod.splits)
  show "no_empty_value (world (snd (TransferOwnership ctx pid newOwner)))"
    using assms no_empty_value_PutState[OF assms encode_Product_nonempty]
    by (auto simp: TransferOwnership_def getTimestamp_def QueryProduct_def json_Marshal_def
        split: option.splits sum.splits prod.splits)
qed

subsection \<open>Existence and absence\<close>




subsection \<open>The write of a transfer\<close>

lemma TransferOwnership_result:
  assumes "tx_timestamp ctx = Some (seconds, nanos)"
    and "QueryProduct ctx pid = (Inr asset, ctx)"
    and "\<forall>v. \<not> put_fails ctx pid v"
  shows "TransferOwnership ctx pid newOwner =
      (Inr (), ctx\<lparr>world := AList.update pid
         (encode_Product (asset\<lparr>Owner := newOwner, UpdatedAt := rfc3339 ctx seconds nanos\<rparr>))
         (world ctx)\<rparr>)
    \<and> TransferOwnership ctx pid [] =
      (Inr (), ctx\<lparr>world := AList.update pid
         (encode_Product (asset\<lparr>Owner := [], UpdatedAt := rfc3339 ctx seconds nanos\<rparr>))
         (world ctx)\<rparr>)"
  using assms
  by (simp add: TransferOwnership_def getTimestamp_def json_Marshal_def PutState_def)

subsection \<open>Seeding the ledger\<close>

lemma InitLedger_result:
  assumes "tx_timestamp ctx = Some (seconds, nanos)"
    and "\<forall>k v. \<not> put_fails ctx k v"
  shows "InitLedger ctx =
      (Inr (), ctx\<lparr>world :=
         AList.update ''p2''
           (encode_Product \<lparr>ID = ''p2'', Name = ''Smartphone'', Status = ''Manufactured'',
              Owner = ''CompanyB'', CreatedAt = rfc3339 ctx seconds nanos,
              UpdatedAt = rfc3339 ctx seconds nanos, Description = ''Latest model smartphone'',
              Category = ''Electronics''\<rparr>)
           (AList.update ''p1''
              (encode_Product \<lparr>ID = ''p1'', Name = ''Laptop'', Status = ''Manufactured'',
                 Owner = ''CompanyA'', CreatedAt = rfc3339 ctx seconds nanos,
                 UpdatedAt = rfc3339 ctx seconds nanos, Description = ''High-end gaming laptop'',
                 Category = ''Electronics''\<rparr>)
              (world ctx))\<rparr>)"
  using assms
  by (simp add: InitLedger_def getTimestamp_def seed_assets_def json_Marshal_def PutState_def)

subsection \<open>Creating a product and reading it back\<close>

lemma create_then_query:
  assumes ts: "tx_timestamp ctx = Some (seconds, nanos)"
    and fresh: "GetState ctx pid = Inr None"
    and put: "\<not> put_fails ctx pid (encode_Product P)"
    and P: "P = \<lparr>ID = pid, Name = name, Status = ''Manufactured'', Owner = owner,
        CreatedAt = rfc3339 ctx seconds nanos, UpdatedAt = rfc3339 ctx seconds nanos,
        Description = description, Category = category\<rparr>"
  shows "CreateProduct ctx pid name owner description category
      = (Inr (), ctx\<lparr>world := AList.update pid (encode_Product P) (world ctx)\<rparr>)"
    and "QueryProduct (ctx\<lparr>world := AList.update pid (encode_Product P) (world ctx)\<rparr>) pid
      = (Inr (coerce_Product P), ctx\<lparr>world := AList.update pid (encode_Product P) (world ctx)\<rparr>)"
proof -
  from fresh have g: "\<not> get_fails ctx pid" "map_of (world ctx) pid = None"
    by (auto simp: GetState_def split: if_splits)
  show "CreateProduct ctx pid name owner description category
      = (Inr (), ctx\<lparr>world := AList.update pid (encode_Product P) (world ctx)\<rparr>)"
    using ts fresh put
    by (simp add: CreateProduct_def getTimestamp_def ProductExists_def json_Marshal_def
        PutState_def P)
  show "QueryProduct (ctx\<lparr>world := AList.update pid (encode_Product P) (world ctx)\<rparr>) pid
      = (Inr (coerce_Product P), ctx\<lparr>world := AList.update pid (encode_Product P) (world ctx)\<rparr>)"
    using g by (simp add: QueryProduct_def GetState_def update_conv' Unmarshal_Marshal)
qed

text \<open>
  Claim C1, amended. When the timestamp is available, the store reads no value under the id
  and accepts the write, \<open>CreateProduct\<close> succeeds and writes the encoding of the new
  product, and \<open>QueryProduct\<close> on the resulting state returns that product with every
  field coerced to well-formed UTF-8: its status is Manufactured and \<open>CreatedAt\<close> equals
  \<open>UpdatedAt\<close>. When the five arguments and the rendered timestamp are well-formed UTF-8,
  the product returned has exactly the supplied id, name, owner, description and category and
  the rendered timestamp in both time fields.
\<close>

theorem create_then_query_returns:
  fixes ctx :: stub and pid name owner description category :: string and seconds nanos :: int
  defines "curTime \<equiv> rfc3339 ctx seconds nanos"
  defines "P \<equiv> \<lparr>ID = pid, Name = name, Status = ''Manufactured'', Owner = owner,
        CreatedAt = curTime, UpdatedAt = curTime,
        Description = description, Category = category\<rparr>"
  defines "ctx' \<equiv> ctx\<lparr>world := AList.update pid (encode_Product P) (world ctx)\<rparr>"
  assumes ts: "tx_timestamp ctx = Some (seconds, nanos)"
    and fresh: "GetState ctx pid = Inr None"
    and put: "\<not> put_fails ctx pid (encode_Product P)"
  shows "CreateProduct ctx pid name owner description category = (Inr (), ctx')
    \<and> QueryProduct ctx' pid = (Inr (coerce_Product P), ctx')
    \<and> Status (coerce_Product P) = ''Manufactured''
    \<and> CreatedAt (coerce_Product P) = UpdatedAt (coerce_Product P)
    \<and> (ValidString pid \<and> ValidString name \<and> ValidString owner \<and> ValidString description
         \<and> ValidString category \<and> ValidString curTime
        \<longrightarrow> QueryProduct ctx' pid = (Inr P, ctx'))"
proof -
  note s = ts
  have c: "curTime = rfc3339 ctx seconds nanos" by (simp add: curTime_def)
  have Peq: "P = \<lparr>ID = pid, Name = name, Status = ''Manufactured'', Owner = owner,
        CreatedAt = rfc3339 ctx seconds nanos, UpdatedAt = rfc3339 ctx seconds nanos,
        Description = description, Category = category\<rparr>"
    by (simp add: P_def c)
  note h = create_then_query[OF s fresh put Peq]
  have m: "ValidString ''Manufactured''" by (simp add: RuneError_def)
  have st: "Status (coerce_Product P) = ''Manufactured''"
    using ValidString_coerce[OF m] by (simp add: coerce_Product_def P_def)
  have "coerce_Product P = P" if "ValidString pid \<and> ValidString name \<and> ValidString owner
      \<and> ValidString description \<and> ValidString category \<and> ValidString curTime"
    using that m by (intro coerce_valid_Product) (simp add: valid_Product_def P_def)
  moreover have "CreatedAt (coerce_Product P) = UpdatedAt (coerce_Product P)"
    by (simp add: coerce_Product_def P_def)
  ultimately show ?thesis
    using h st unfolding ctx'_def by simp
qed


subsection \<open>The theorems at concrete inputs\<close>

lemma example_stub_simps:
  "world (example_stub w) = w" "tx_timestamp (example_stub w) = Some (1700000000, 0)"
  "rfc3339 (example_stub w) seconds nanos = ''2023-11-14T22:13:20Z''"
  "get_fails (example_stub w) k = False" "put_fails (example_stub w) k v = False"
  "range_fails (example_stub w) = False" "next_fails (example_stub w) i = False"
  "(example_stub w)\<lparr>world := w'\<rparr> = example_stub w'"
  by (simp_all add: example_stub_def)

lemma query_example:
  "QueryProduct (example_stub [(''p1'', encode_Product example_product)]) ''p1''
    = (Inr example_product, example_stub [(''p1'', encode_Product example_product)])"
  by (simp add: QueryProduct_def GetState_def example_stub_simps Unmarshal_Marshal
      coerce_valid_Product[OF valid_example_product])

theorem create_then_query_returns_witness:
  "CreateProduct (example_stub []) ''p1'' ''Laptop'' ''CompanyA'' ''High-end gaming laptop'' ''Electronics''
     = (Inr (), example_stub [(''p1'', encode_Product example_product)])
   \<and> QueryProduct (example_stub [(''p1'', encode_Product example_product)]) ''p1''
     = (Inr example_product, example_stub [(''p1'', encode_Product example_product)])"
proof -
  have P: "\<lparr>ID = ''p1'', Name = ''Laptop'', Status = ''Manufactured'', Owner = ''CompanyA'',
      CreatedAt = rfc3339 (example_stub []) 1700000000 0,
      UpdatedAt = rfc3339 (example_stub []) 1700000000 0,
      Description = ''High-end gaming laptop'', Category = ''Electronics''\<rparr> = example_product"
    by (simp add: example_product_def example_stub_simps)
  have v: "ValidString ''p1''" "ValidString ''Laptop''" "ValidString ''CompanyA''"
    "ValidString ''High-end gaming laptop''" "ValidString ''Electronics''"
    "ValidString ''2023-11-14T22:13:20Z''"
    by (simp_all add: RuneError_def)
  show ?thesis
    using create_then_query_returns[of "example_stub []" 1700000000 0 "''p1''" "''Laptop''"
        "''CompanyA''" "''High-end gaming laptop''" "''Electronics''"] v
    unfolding P
    by (simp add: example_stub_simps GetState_def coerce_valid_Product[OF valid_example_product]
        del: ValidString.simps)
qed

text \<open>
  The claim as stated, for every creation input, fails for a name that is the single byte
  \<open>0xFF\<close>: the product read back has the three bytes of U+FFFD as its name.
\<close>

theorem create_invalid_utf8_counterexample:
  "fst (CreateProduct (example_stub []) ''p1'' [CHR 0xFF] ''CompanyA'' ''High-end gaming laptop'' ''Electronics'')
     = Inr ()
   \<and> fst (QueryProduct (snd (CreateProduct (example_stub []) ''p1'' [CHR 0xFF] ''CompanyA''
          ''High-end gaming laptop'' ''Electronics'')) ''p1'')
     = Inr (example_product\<lparr>Name := [CHR 0xEF, CHR 0xBF, CHR 0xBD]\<rparr>)
   \<and> Name (example_product\<lparr>Name := [CHR 0xEF, CHR 0xBF, CHR 0xBD]\<rparr>) \<noteq> [CHR 0xFF]"
proof -
  have P: "example_product\<lparr>Name := [CHR 0xFF]\<rparr> =
      \<lparr>ID = ''p1'', Name = [CHR 0xFF], Status = ''Manufactured'', Owner = ''CompanyA'',
       CreatedAt = rfc3339 (example_stub []) 1700000000 0,
       UpdatedAt = rfc3339 (example_stub []) 1700000000 0,
       Description = ''High-end gaming laptop'', Category = ''Electronics''\<rparr>"
    by (simp add: example_product_def example_stub_simps)
  have c: "coerce_Product (example_product\<lparr>Name := [CHR 0xFF]\<rparr>)
      = example_product\<lparr>Name := [CHR 0xEF, CHR 0xBF, CHR 0xBD]\<rparr>"
    by (simp add: coerce_Product_def example_product_def coerce_step_def RuneError_def)
  have g: "GetState (example_stub []) ''p1'' = Inr None"
    by (simp add: GetState_def example_stub_simps)
  have t: "tx_timestamp (example_stub []) = Some (1700000000, 0)"
    by (simp add: example_stub_simps)
  have pf: "\<not> put_fails (example_stub []) ''p1'' (encode_Product (example_product\<lparr>Name := [CHR 0xFF]\<rparr>))"
    by (simp add: example_stub_simps)
  note h = create_then_query[OF t g pf P]
  show ?thesis using h by (simp add: c)
qed

theorem never_deletes_witness:
  "map_of (world (example_stub [(''p1'', ''x'')])) ''p1'' \<noteq> None
   \<and> map_of (world (snd (CreateProduct (example_stub [(''p1'', ''x'')]) ''p2'' ''n'' ''o'' ''d'' ''c''))) ''p1'' \<noteq> None
   \<and> map_of (world (snd (InitLedger (example_stub [(''p1'', ''x'')])))) ''p1'' \<noteq> None
   \<and> map_of (world (snd (UpdateProduct (example_stub [(''p1'', ''x'')]) ''p2'' ''s'' ''o'' [] []))) ''p1'' \<noteq> None
   \<and> map_of (world (snd (TransferOwnership (example_stub [(''p1'', ''x'')]) ''p2'' ''o''))) ''p1'' \<noteq> None
   \<and> map_of (world (snd (QueryProduct (example_stub [(''p1'', ''x'')]) ''p2''))) ''p1'' \<noteq> None
   \<and> map_of (world (snd (ProductExists (example_stub [(''p1'', ''x'')]) ''p2''))) ''p1'' \<noteq> None
   \<and> map_of (world (snd (GetAllProducts (example_stub [(''p1'', ''x'')])))) ''p1'' \<noteq> None"
proof -
  have h: "map_of (world (example_stub [(''p1'', ''x'')])) ''p1'' \<noteq> None"
    by (simp add: example_stub_def)
  show ?thesis
    using h never_deletes[OF h, where pid = "''p2''" and name = "''n''" and owner = "''o''"
        and description = "''d''" and category = "''c''" and newStatus = "''s''"
        and newOwner = "''o''" and newDescription = "[]" and newCategory = "[]"]
    by blast
qed

subsection \<open>Listing all products\<close>

lemma collect_products_all:
  assumes "\<forall>j<length xs. \<not> next_fails ctx (i + j)"
    and "map (\<lambda>x. json_Unmarshal (snd x)) xs = map Inr ps"
  shows "collect_products ctx i xs acc = Inr (acc @ ps)"
  using assms
proof (induction xs arbitrary: i acc ps)
  case Nil
  then show ?case by simp
next
  case (Cons x xs)
  obtain k v where x: "x = (k, v)" by (cases x)
  from Cons.prems(2) obtain p ps' where ps: "ps = p # ps'" and p: "json_Unmarshal v = Inr p"
    and rest: "map (\<lambda>x. json_Unmarshal (snd x)) xs = map Inr ps'"
    by (cases ps) (auto simp: x)
  from Cons.prems(1) have nf: "\<not> next_fails ctx i" by force
  have "\<forall>j<length xs. \<not> next_fails ctx (Suc i + j)"
    using Cons.prems(1) by force
  from Cons.IH[OF this rest] show ?case
    using nf p by (simp add: x ps)
qed

lemma collect_products_abort:
  assumes "\<forall>j\<le>length pre. \<not> next_fails ctx (i + j)"
    and "map (\<lambda>x. json_Unmarshal (snd x)) pre = map Inr qs"
    and "json_Unmarshal v = Inl e"
  shows "collect_products ctx i (pre @ (k, v) # post) acc = Inl e"
  using assms
proof (induction pre arbitrary: i acc qs)
  case Nil
  then show ?case by simp
next
  case (Cons x pre)
  obtain k' v' where x: "x = (k', v')" by (cases x)
  from Cons.prems(2) obtain p qs' where p: "json_Unmarshal v' = Inr p"
    and rest: "map (\<lambda>x. json_Unmarshal (snd x)) pre = map Inr qs'"
    by (cases qs) (auto simp: x)
  from Cons.prems(1) have nf: "\<not> next_fails ctx i" by force
  have "\<forall>j\<le>length pre. \<not> next_fails ctx (Suc i + j)"
    using Cons.prems(1) by force
  from Cons.IH[OF this rest Cons.prems(3)] show ?case
    using nf p by (simp add: x)
qed

lemma Unmarshal_corrupt: "json_Unmarshal ''x'' = Inl DecodeError"
proof -
  have "parse_value n 0 ''x'' = None" for n
    by (cases n) (simp_all add: skip_ws_def isSpace_def scan_literal_def isDigit_def)
  then show ?thesis
    by (simp add: json_Unmarshal_def parse_json_def del: parse_value.simps)
qed

lemma seeded_world:
  assumes "world genesis = []" and "tx_timestamp genesis = Some (seconds, nanos)"
    and "\<forall>k v. \<not> put_fails genesis k v"
  shows "world (snd (InitLedger genesis)) =
    [(''p1'', encode_Product \<lparr>ID = ''p1'', Name = ''Laptop'', Status = ''Manufactured'',
         Owner = ''CompanyA'', CreatedAt = rfc3339 genesis seconds nanos,
         UpdatedAt = rfc3339 genesis seconds nanos, Description = ''High-end gaming laptop'',
         Category = ''Electronics''\<rparr>),
     (''p2'', encode_Product \<lparr>ID = ''p2'', Name = ''Smartphone'', Status = ''Manufactured'',
         Owner = ''CompanyB'', CreatedAt = rfc3339 genesis seconds nanos,
         UpdatedAt = rfc3339 genesis seconds nanos, Description = ''Latest model smartphone'',
         Category = ''Electronics''\<rparr>)]"
  using InitLedger_result[OF assms(2,3)] assms(1) by simp

lemma GetAllProducts_all:
  assumes "\<not> range_fails ctx" and "\<forall>j<length (world ctx). \<not> next_fails ctx j"
    and "map (\<lambda>x. json_Unmarshal (snd x)) (sort_key fst (world ctx)) = map Inr ps"
  shows "GetAllProducts ctx = (Inr ps, ctx)"
  using assms collect_products_all[of "sort_key fst (world ctx)" ctx 0 ps "[]"]
  by (simp add: GetAllProducts_def GetStateByRange_def)

lemma GetAllProducts_abort:
  assumes "\<not> range_fails ctx" and "sort_key fst (world ctx) = pre @ (k, v) # post"
    and "\<forall>j\<le>length pre. \<not> next_fails ctx j"
    and "map (\<lambda>x. json_Unmarshal (snd x)) pre = map Inr qs"
    and "json_Unmarshal v = Inl e"
  shows "GetAllProducts ctx = (Inl e, ctx)"
  using assms collect_products_abort[of pre ctx 0 qs v e k post "[]"]
  by (simp add: GetAllProducts_def GetStateByRange_def)

lemma GetAllProducts_seeded:
  assumes "world ctx = world (snd (InitLedger genesis))" and "world genesis = []"
    and "tx_timestamp genesis = Some (seconds, nanos)" and "\<forall>k v. \<not> put_fails genesis k v"
    and "\<not> range_fails ctx" and "\<forall>j<2. \<not> next_fails ctx j"
  shows "GetAllProducts ctx =
    (Inr [\<lparr>ID = ''p1'', Name = ''Laptop'', Status = ''Manufactured'', Owner = ''CompanyA'',
            CreatedAt = coerce_utf8 (rfc3339 genesis seconds nanos),
            UpdatedAt = coerce_utf8 (rfc3339 genesis seconds nanos),
            Description = ''High-end gaming laptop'', Category = ''Electronics''\<rparr>,
          \<lparr>ID = ''p2'', Name = ''Smartphone'', Status = ''Manufactured'', Owner = ''CompanyB'',
            CreatedAt = coerce_utf8 (rfc3339 genesis seconds nanos),
            UpdatedAt = coerce_utf8 (rfc3339 genesis seconds nanos),
            Description = ''Latest model smartphone'', Category = ''Electronics''\<rparr>], ctx)"
proof (rule GetAllProducts_all[OF assms(5)])
  note w = seeded_world[OF assms(2,3,4)]
  show "\<forall>j<length (world ctx). \<not> next_fails ctx j"
    using assms(6) by (simp add: assms(1) w)
  show "map (\<lambda>x. json_Unmarshal (snd x)) (sort_key fst (world ctx)) = map Inr
     [\<lparr>ID = ''p1'', Name = ''Laptop'', Status = ''Manufactured'', Owner = ''CompanyA'',
            CreatedAt = coerce_utf8 (rfc3339 genesis seconds nanos),
            UpdatedAt = coerce_utf8 (rfc3339 genesis seconds nanos),
            Description = ''High-end gaming laptop'', Category = ''Electronics''\<rparr>,
          \<lparr>ID = ''p2'', Name = ''Smartphone'', Status = ''Manufactured'', Owner = ''CompanyB'',
            CreatedAt = coerce_utf8 (rfc3339 genesis seconds nanos),
            UpdatedAt = coerce_utf8 (rfc3339 genesis seconds nanos),
            Description = ''Latest model smartphone'', Category = ''Electronics''\<rparr>]"
    unfolding assms(1) w
    by (simp add: Unmarshal_Marshal coerce_Product_def)
       (simp add: coerce_step_def)
qed

text \<open>
  Claim C8. When the range scan opens, \<open>GetAllProducts\<close> reads the whole world state in
  ascending order of the keys. If no call of \<open>Next\<close> fails and every value decodes, it
  returns the decoded products in that order. If a value fails to decode, and the values
  before it decode, it returns that error and no product. In particular, in the world state
  that \<open>InitLedger\<close> leaves from an empty one, it returns the product \<open>p1\<close> and then
  the product \<open>p2\<close>, both with status Manufactured (the time fields are the rendered
  timestamp as the encoding stores it).
\<close>

theorem get_all_products_ordered:
  assumes "\<not> range_fails ctx"
  shows "sorted (map fst (sort_key fst (world ctx)))
    \<and> set (sort_key fst (world ctx)) = set (world ctx)
    \<and> ((\<forall>j<length (world ctx). \<not> next_fails ctx j)
        \<and> map (\<lambda>x. json_Unmarshal (snd x)) (sort_key fst (world ctx)) = map Inr ps
       \<longrightarrow> GetAllProducts ctx = (Inr ps, ctx))
    \<and> (sort_key fst (world ctx) = pre @ (k, v) # post
        \<and> (\<forall>j\<le>length pre. \<not> next_fails ctx j)
        \<and> map (\<lambda>x. json_Unmarshal (snd x)) pre = map Inr qs
        \<and> json_Unmarshal v = Inl e
       \<longrightarrow> GetAllProducts ctx = (Inl e, ctx))
    \<and> (world ctx = world (snd (InitLedger genesis)) \<and> world genesis = []
        \<and> tx_timestamp genesis = Some (seconds, nanos) \<and> (\<forall>k v. \<not> put_fails genesis k v)
        \<and> (\<forall>j<2. \<not> next_fails ctx j)
       \<longrightarrow> GetAllProducts ctx =
          (Inr [\<lparr>ID = ''p1'', Name = ''Laptop'', Status = ''Manufactured'', Owner = ''CompanyA'',
                  CreatedAt = coerce_utf8 (rfc3339 genesis seconds nanos),
                  UpdatedAt = coerce_utf8 (rfc3339 genesis seconds nanos),
                  Description = ''High-end gaming laptop'', Category = ''Electronics''\<rparr>,
                \<lparr>ID = ''p2'', Name = ''Smartphone'', Status = ''Manufactured'', Owner = ''CompanyB'',
                  CreatedAt = coerce_utf8 (rfc3339 genesis seconds nanos),
                  UpdatedAt = coerce_utf8 (rfc3339 genesis seconds nanos),
                  Description = ''Latest model smartphone'', Category = ''Electronics''\<rparr>], ctx))"
  using GetAllProducts_all[OF assms, of ps] GetAllProducts_abort[OF assms, of pre k v post qs e]
    GetAllProducts_seeded[of ctx genesis seconds nanos, OF _ _ _ _ assms]
  by (simp add: sorted_sort_key)

lemma valid_example_product2: "valid_Product example_product2"
  by (simp add: valid_Product_def example_product2_def RuneError_def)

lemma Unmarshal_examples:
  "json_Unmarshal (encode_Product example_product) = Inr example_product"
  "json_Unmarshal (encode_Product example_product2) = Inr example_product2"
  by (simp_all add: Unmarshal_Marshal coerce_valid_Product valid_example_product
      valid_example_product2)

lemma InitLedger_example:
  "InitLedger (example_stub []) =
    (Inr (), example_stub [(''p1'', encode_Product example_product),
                           (''p2'', encode_Product example_product2)])"
  using InitLedger_result[of "example_stub []" 1700000000 0]
  by (simp add: example_stub_def example_product_def example_product2_def)

theorem get_all_products_ordered_witness:
  "GetAllProducts (example_stub [(''p2'', encode_Product example_product2),
                                 (''p1'', encode_Product example_product)])
     = (Inr [example_product, example_product2],
        example_stub [(''p2'', encode_Product example_product2),
                      (''p1'', encode_Product example_product)])
   \<and> GetAllProducts (example_stub [(''p2'', ''x''), (''p1'', encode_Product example_product)])
     = (Inl DecodeError,
        example_stub [(''p2'', ''x''), (''p1'', encode_Product example_product)])
   \<and> GetAllProducts (snd (InitLedger (example_stub [])))
     = (Inr [example_product, example_product2], snd (InitLedger (example_stub [])))"
proof -
  let ?A = "example_stub [(''p2'', encode_Product example_product2),
                          (''p1'', encode_Product example_product)]"
  let ?B = "example_stub [(''p2'', ''x''), (''p1'', encode_Product example_product)]"
  let ?C = "snd (InitLedger (example_stub []))"
  have sA: "sort_key fst (world ?A) = [(''p1'', encode_Product example_product),
      (''p2'', encode_Product example_product2)]"
    by (simp add: example_stub_def)
  have sB: "sort_key fst (world ?B) = [(''p1'', encode_Product example_product)] @ (''p2'', ''x'') # []"
    by (simp add: example_stub_def)
  have rA: "\<not> range_fails ?A" and rB: "\<not> range_fails ?B" and rC: "\<not> range_fails ?C"
    by (simp_all add: InitLedger_example) (simp_all add: example_stub_def)
  have tA: "GetAllProducts ?A = (Inr [example_product, example_product2], ?A)"
  proof -
    have prem: "(\<forall>j<length (world ?A). \<not> next_fails ?A j)
        \<and> map (\<lambda>x. json_Unmarshal (snd x)) (sort_key fst (world ?A))
          = map Inr [example_product, example_product2]"
      unfolding sA by (simp add: Unmarshal_examples) (simp add: example_stub_def)
    from get_all_products_ordered[OF rA, where ps = "[example_product, example_product2]",
        THEN conjunct2, THEN conjunct2, THEN conjunct1, THEN mp, OF prem]
    show ?thesis .
  qed
  have tB: "GetAllProducts ?B = (Inl DecodeError, ?B)"
  proof -
    have prem: "sort_key fst (world ?B) = [(''p1'', encode_Product example_product)] @ (''p2'', ''x'') # []
        \<and> (\<forall>j\<le>length [(''p1'', encode_Product example_product)]. \<not> next_fails ?B j)
        \<and> map (\<lambda>x. json_Unmarshal (snd x)) [(''p1'', encode_Product example_product)]
          = map Inr [example_product]
        \<and> json_Unmarshal ''x'' = Inl DecodeError"
      unfolding sB by (simp add: Unmarshal_examples Unmarshal_corrupt) (simp add: example_stub_def)
    from get_all_products_ordered[OF rB, where pre = "[(''p1'', encode_Product example_product)]"
        and k = "''p2''" and v = "''x''" and post = "[]" and qs = "[example_product]"
        and e = DecodeError,
        THEN conjunct2, THEN conjunct2, THEN conjunct2, THEN conjunct1, THEN mp, OF prem]
    show ?thesis .
  qed
  have c: "coerce_utf8 ''2023-11-14T22:13:20Z'' = ''2023-11-14T22:13:20Z''"
    by (simp add: coerce_step_def)
  have tC: "GetAllProducts ?C = (Inr [example_product, example_product2], ?C)"
  proof -
    have prem: "world ?C = world (snd (InitLedger (example_stub []))) \<and> world (example_stub []) = []
        \<and> tx_timestamp (example_stub []) = Some (1700000000, 0)
        \<and> (\<forall>k v. \<not> put_fails (example_stub []) k v) \<and> (\<forall>j<2. \<not> next_fails ?C j)"
      by (simp add: InitLedger_example) (simp add: example_stub_def)
    from get_all_products_ordered[OF rC, where genesis = "example_stub []" and seconds = 1700000000
        and nanos = 0,
        THEN conjunct2, THEN conjunct2, THEN conjunct2, THEN conjunct2, THEN mp, OF prem]
    show ?thesis
      by (simp add: example_product_def example_product2_def example_stub_def coerce_step_def)
  qed
  from tA tB tC show ?thesis by simp
qed

subsection \<open>Coerced strings are well-formed\<close>

lemma ValidString_rune_append:
  assumes "DecodeRune (part @ X) = (r, length part)" and "\<not> (r = RuneError \<and> length part = 1)"
    and "part \<noteq> []"
  shows "ValidString (part @ X) = ValidString X"
proof -
  from assms(3) obtain c cs where p: "part = c # cs" by (cases part) auto
  show ?thesis
    using assms(1,2) unfolding p by (simp del: DecodeRune.simps)
qed

lemma DecodeRune_replacement:
  "DecodeRune ([CHR 0xEF, CHR 0xBF, CHR 0xBD] @ X) = (RuneError, 3)"
  by (simp add: RuneError_def)

lemma ValidString_coerce_utf8: "ValidString (coerce_utf8 s)"
proof (induction s rule: coerce_utf8.induct)
  case 1
  show ?case by simp
next
  case (2 c cs)
  obtain part n where st: "coerce_step (c # cs) = (part, n)" by (cases "coerce_step (c # cs)")
  from "2.IH"[OF st[symmetric]] have IH: "ValidString (coerce_utf8 (drop (n - 1) cs))" by simp
  let ?X = "coerce_utf8 (drop (n - 1) cs)"
  have "\<exists>r. DecodeRune (part @ ?X) = (r, length part) \<and> \<not> (r = RuneError \<and> length part = 1)
      \<and> part \<noteq> []"
  proof (cases "(of_char c :: nat) < 0x80")
    case True
    with st have "part = [c]" by (simp add: coerce_step_def)
    with True show ?thesis by (simp add: RuneError_def)
  next
    case False
    then have hi: "0x80 \<le> (of_char c :: nat)" by simp
    obtain r sz where d: "DecodeRune (c # cs) = (r, sz)" by (cases "DecodeRune (c # cs)")
    show ?thesis
    proof (cases "r = RuneError \<and> sz = 1")
      case True
      with st False d have "part = [CHR 0xEF, CHR 0xBF, CHR 0xBD]"
        by (auto simp add: coerce_step_def simp del: DecodeRune.simps)
      then show ?thesis using DecodeRune_replacement[of ?X] by (simp del: DecodeRune.simps)
    next
      case ok: False
      from DecodeRune_wellformed[OF d ok hi, of ?X]
      have w: "2 \<le> sz" "sz \<le> length (c # cs)" "DecodeRune (take sz (c # cs) @ ?X) = (r, sz)"
        by simp_all
      from st False d ok have part: "part = take sz (c # cs)"
        by (auto simp add: coerce_step_def simp del: DecodeRune.simps)
      have len: "length part = sz" using w(2) by (simp add: part)
      have ne: "part \<noteq> []" using w(1) len by auto
      show ?thesis using w(1,3) len ne unfolding part by (auto simp del: DecodeRune.simps)
    qed
  qed
  then obtain r where "DecodeRune (part @ ?X) = (r, length part)"
    "\<not> (r = RuneError \<and> length part = 1)" "part \<noteq> []" by blast
  from ValidString_rune_append[OF this] IH show ?case using st by simp
qed

lemma coerce_utf8_idem: "coerce_utf8 (coerce_utf8 s) = coerce_utf8 s"
  by (rule ValidString_coerce[OF ValidString_coerce_utf8])

subsection \<open>Decoded strings are well-formed\<close>

text \<open>
  Every rune that \<open>EncodeRune\<close> writes is read back by \<open>DecodeRune\<close> as one
  well-formed rune. The decoder builds each string from ASCII bytes and from the encodings of
  runes, so every string it yields is well-formed UTF-8, and so is every field of a product
  that \<open>json_Unmarshal\<close> returns.
\<close>

lemma enc2_bounds:
  fixes r :: nat
  assumes "0x7F < r" "r \<le> 0x7FF"
  shows "2 \<le> r div 64" "r div 64 < 32" "r mod 64 < 64"
proof -
  have "128 div 64 \<le> r div 64" using assms(1) by (intro div_le_mono) simp
  then show "2 \<le> r div 64" by simp
  show "r div 64 < 32" using assms(2) by (intro less_mult_imp_div_less) simp
  show "r mod 64 < 64" by simp
qed

lemma enc3_bounds:
  fixes r :: nat
  assumes "0x7FF < r" "r \<le> 0xFFFF" "\<not> (0xD800 \<le> r \<and> r \<le> 0xDFFF)"
  shows "r div 4096 < 16" "(r div 64) mod 64 < 64" "r mod 64 < 64"
    "r div 4096 = 0 \<longrightarrow> 32 \<le> (r div 64) mod 64"
    "r div 4096 = 13 \<longrightarrow> (r div 64) mod 64 < 32"
proof -
  show "r div 4096 < 16" using assms(2) by (intro less_mult_imp_div_less) simp
  show "(r div 64) mod 64 < 64" "r mod 64 < 64" by simp_all
  show "r div 4096 = 0 \<longrightarrow> 32 \<le> (r div 64) mod 64"
  proof
    assume "r div 4096 = 0"
    then have "r < 4096" by (simp add: div_eq_0_iff)
    then have lt: "r div 64 < 64" by (intro less_mult_imp_div_less) simp
    have "2048 div 64 \<le> r div 64" using assms(1) by (intro div_le_mono) simp
    then have "32 \<le> r div 64" by simp
    then show "32 \<le> (r div 64) mod 64" using lt by simp
  qed
  show "r div 4096 = 13 \<longrightarrow> (r div 64) mod 64 < 32"
  proof
    assume a: "r div 4096 = 13"
    have "(r div 4096) * 4096 \<le> r" by (rule div_times_less_eq_dividend)
    then have lo: "53248 \<le> r" unfolding a by simp
    have "r < (r div 4096 + 1) * 4096" using dividend_less_div_times[of 4096 r] by simp
    then have "r < 57344" unfolding a by simp
    with assms(3) have hi: "r < 55296" by linarith
    have l64: "53248 div 64 \<le> r div 64" using lo by (intro div_le_mono)
    then have l: "832 \<le> r div 64" by simp
    have h: "r div 64 < 864" using hi by (intro less_mult_imp_div_less) simp
    have "(r div 64) mod 64 = r div 64 - 832"
      using l h by (intro mod_offset) simp_all
    then show "(r div 64) mod 64 < 32" using h by linarith
  qed
qed

lemma enc4_bounds:
  fixes r :: nat
  assumes "0xFFFF < r" "r \<le> 0x10FFFF"
  shows "r div 262144 \<le> 4" "(r div 4096) mod 64 < 64" "(r div 64) mod 64 < 64" "r mod 64 < 64"
    "r div 262144 = 0 \<longrightarrow> 16 \<le> (r div 4096) mod 64"
    "r div 262144 = 4 \<longrightarrow> (r div 4096) mod 64 < 16"
proof -
  have "r div 262144 < 5" using assms(2) by (intro less_mult_imp_div_less) simp
  then show "r div 262144 \<le> 4" by simp
  show "(r div 4096) mod 64 < 64" "(r div 64) mod 64 < 64" "r mod 64 < 64" by simp_all
  show "r div 262144 = 0 \<longrightarrow> 16 \<le> (r div 4096) mod 64"
  proof
    assume "r div 262144 = 0"
    then have "r < 262144" by (simp add: div_eq_0_iff)
    then have lt: "r div 4096 < 64" by (intro less_mult_imp_div_less) simp
    have "65536 div 4096 \<le> r div 4096" using assms(1) by (intro div_le_mono) simp
    then have "16 \<le> r div 4096" by simp
    then show "16 \<le> (r div 4096) mod 64" using lt by simp
  qed
  show "r div 262144 = 4 \<longrightarrow> (r div 4096) mod 64 < 16"
  proof
    assume a: "r div 262144 = 4"
    have "(r div 262144) * 262144 \<le> r" by (rule div_times_less_eq_dividend)
    then have lo: "1048576 \<le> r" unfolding a by simp
    have "1048576 div 4096 \<le> r div 4096" using lo by (intro div_le_mono)
    then have l: "256 \<le> r div 4096" by simp
    have h: "r div 4096 < 272" using assms(2) by (intro less_mult_imp_div_less) simp
    have "(r div 4096) mod 64 = r div 4096 - 256"
      using l h by (intro mod_offset) simp_all
    then show "(r div 4096) mod 64 < 16" using h by linarith
  qed
qed

lemma of_char_char_of_small: "n < 256 \<Longrightarrow> (of_char (char_of (n::nat)) :: nat) = n"
  by simp

lemma EncodeRune_decodes:
  "\<exists>r'. DecodeRune (EncodeRune r @ X) = (r', length (EncodeRune r))
     \<and> \<not> (r' = RuneError \<and> length (EncodeRune r) = 1) \<and> EncodeRune r \<noteq> []"
proof -
  consider (one) "r \<le> 0x7F"
    | (two) "0x7F < r" "r \<le> 0x7FF"
    | (bad) "0x7FF < r" "0x10FFFF < r \<or> (0xD800 \<le> r \<and> r \<le> 0xDFFF)"
    | (three) "0x7FF < r" "r \<le> 0xFFFF" "\<not> (0xD800 \<le> r \<and> r \<le> 0xDFFF)"
    | (four) "0xFFFF < r" "r \<le> 0x10FFFF"
    by linarith
  then show ?thesis
  proof cases
    case one
    then have e: "EncodeRune r = [char_of r]" by (simp add: EncodeRune_def)
    have o: "(of_char (char_of r :: char) :: nat) = r" using one by (intro of_char_char_of_small) simp
    show ?thesis unfolding e using one o by (simp add: RuneError_def)
  next
    case two
    note b = enc2_bounds[OF two]
    let ?c0 = "char_of (0xC0 + r div 64) :: char" and ?c1 = "char_of (0x80 + r mod 64) :: char"
    from two have e: "EncodeRune r = [?c0, ?c1]" by (simp add: EncodeRune_def)
    have o0: "(of_char ?c0 :: nat) = 0xC0 + r div 64" using b(2) by (intro of_char_char_of_small) simp
    have o1: "(of_char ?c1 :: nat) = 0x80 + r mod 64" using b(3) by (intro of_char_char_of_small) simp
    have "DecodeRune (?c0 # ?c1 # X) = ((of_char ?c0 mod 32) * 64 + of_char ?c1 mod 64, 2)"
      unfolding o0 o1 using b by (intro DecodeRune_two[of ?c0 ?c1, unfolded o0 o1]) simp_all
    then show ?thesis unfolding e by (simp del: DecodeRune.simps)
  next
    case bad
    then have e: "EncodeRune r = [CHR 0xEF, CHR 0xBF, CHR 0xBD]" by (auto simp add: EncodeRune_def)
    show ?thesis unfolding e using DecodeRune_replacement[of X] by (simp del: DecodeRune.simps)
  next
    case three
    note b = enc3_bounds[OF three]
    let ?c0 = "char_of (0xE0 + r div 4096) :: char"
      and ?c1 = "char_of (0x80 + (r div 64) mod 64) :: char"
      and ?c2 = "char_of (0x80 + r mod 64) :: char"
    from three have e: "EncodeRune r = [?c0, ?c1, ?c2]" by (auto simp add: EncodeRune_def)
    have o0: "(of_char ?c0 :: nat) = 0xE0 + r div 4096" using b(1) by (intro of_char_char_of_small) simp
    have o1: "(of_char ?c1 :: nat) = 0x80 + (r div 64) mod 64" using b(2) by (intro of_char_char_of_small) simp
    have o2: "(of_char ?c2 :: nat) = 0x80 + r mod 64" using b(3) by (intro of_char_char_of_small) simp
    have "DecodeRune (?c0 # ?c1 # ?c2 # X) =
        ((of_char ?c0 mod 16) * 4096 + (of_char ?c1 mod 64) * 64 + of_char ?c2 mod 64, 3)"
      unfolding o0 o1 o2 using b
      by (intro DecodeRune_three[of ?c0 ?c1 ?c2, unfolded o0 o1 o2]) auto
    then show ?thesis unfolding e by (simp del: DecodeRune.simps)
  next
    case four
    note b = enc4_bounds[OF four]
    let ?c0 = "char_of (0xF0 + r div 262144) :: char"
      and ?c1 = "char_of (0x80 + (r div 4096) mod 64) :: char"
      and ?c2 = "char_of (0x80 + (r div 64) mod 64) :: char"
      and ?c3 = "char_of (0x80 + r mod 64) :: char"
    from four have e: "EncodeRune r = [?c0, ?c1, ?c2, ?c3]" by (auto simp add: EncodeRune_def)
    have o0: "(of_char ?c0 :: nat) = 0xF0 + r div 262144" using b(1) by (intro of_char_char_of_small) simp
    have o1: "(of_char ?c1 :: nat) = 0x80 + (r div 4096) mod 64" using b(2) by (intro of_char_char_of_small) simp
    have o2: "(of_char ?c2 :: nat) = 0x80 + (r div 64) mod 64" using b(3) by (intro of_char_char_of_small) simp
    have o3: "(of_char ?c3 :: nat) = 0x80 + r mod 64" using b(4) by (intro of_char_char_of_small) simp
    have "DecodeRune (?c0 # ?c1 # ?c2 # ?c3 # X) =
        ((of_char ?c0 mod 8) * 262144 + (of_char ?c1 mod 64) * 4096 + (of_char ?c2 mod 64) * 64
          + of_char ?c3 mod 64, 4)"
      unfolding o0 o1 o2 o3 using b
      by (intro DecodeRune_four[of ?c0 ?c1 ?c2 ?c3, unfolded o0 o1 o2 o3]) auto
    then show ?thesis unfolding e by (simp del: DecodeRune.simps)
  qed
qed

lemma ValidString_EncodeRune_append: "ValidString (EncodeRune r @ t) = ValidString t"
proof -
  from EncodeRune_decodes[of r t] obtain r' where
    "DecodeRune (EncodeRune r @ t) = (r', length (EncodeRune r))"
    "\<not> (r' = RuneError \<and> length (EncodeRune r) = 1)" "EncodeRune r \<noteq> []"
    by blast
  then show ?thesis by (rule ValidString_rune_append)
qed

lemma ValidString_ascii_Cons:
  "(of_char c :: nat) < 0x80 \<Longrightarrow> ValidString (c # t) = ValidString t"
  by (simp add: RuneError_def)

lemma unquote_step_unicode: "unquote_step (CHR 0x5C # CHR ''u'' # rest) =
          (case getu4 (CHR 0x5C # CHR ''u'' # rest) of
             None \<Rightarrow> None
           | Some rr \<Rightarrow>
               if 0xD800 \<le> rr \<and> rr < 0xE000 then
                 (case getu4 (drop 6 (CHR 0x5C # CHR ''u'' # rest)) of
                    None \<Rightarrow> Some (EncodeRune RuneError, 6)
                  | Some rr1 \<Rightarrow>
                      if rr < 0xDC00 \<and> 0xDC00 \<le> rr1 \<and> rr1 < 0xE000 then
                        Some (EncodeRune ((rr - 0xD800) * 1024 + (rr1 - 0xDC00) + 0x10000), 12)
                      else Some (EncodeRune RuneError, 6))
               else Some (EncodeRune rr, 6))"
  unfolding unquote_step_def by (simp only: list.case if_True if_False char.inject simp_thms)

lemma unquote_step_bad_escape: "e \<noteq> CHR 0x22 \<Longrightarrow> e \<noteq> CHR 0x5C \<Longrightarrow> e \<noteq> CHR ''/'' \<Longrightarrow> e \<noteq> CHR ''b'' \<Longrightarrow>
          e \<noteq> CHR ''f'' \<Longrightarrow> e \<noteq> CHR ''n'' \<Longrightarrow> e \<noteq> CHR ''r'' \<Longrightarrow> e \<noteq> CHR ''t'' \<Longrightarrow> e \<noteq> CHR ''u''
   \<Longrightarrow> unquote_step (CHR 0x5C # e # rest) = None"
  unfolding unquote_step_def by (simp only: list.case if_True if_False simp_thms)

lemma unquote_step_stop: "c \<noteq> CHR 0x5C \<Longrightarrow> c = CHR 0x22 \<or> (of_char c :: nat) < 0x20 \<Longrightarrow> unquote_step (c # cs) = None"
  unfolding unquote_step_def by (simp only: list.case if_True if_False simp_thms)

lemma unquote_step_ascii: "c \<noteq> CHR 0x5C \<Longrightarrow> \<not> (c = CHR 0x22 \<or> (of_char c :: nat) < 0x20) \<Longrightarrow> (of_char c :: nat) < 0x80
   \<Longrightarrow> unquote_step (c # cs) = Some ([c], 1)"
  unfolding unquote_step_def by (simp only: list.case if_True if_False simp_thms)

lemma unquote_step_rune: "c \<noteq> CHR 0x5C \<Longrightarrow> \<not> (c = CHR 0x22 \<or> (of_char c :: nat) < 0x20) \<Longrightarrow> \<not> (of_char c :: nat) < 0x80
   \<Longrightarrow> unquote_step (c # cs) = Some (EncodeRune (fst (DecodeRune (c # cs))), snd (DecodeRune (c # cs)))"
  unfolding unquote_step_def by (simp only: list.case if_True if_False simp_thms split_beta)

lemma unquote_step_plain: "e = CHR 0x22 \<or> e = CHR 0x5C \<or> e = CHR ''/'' \<Longrightarrow> unquote_step (CHR 0x5C # e # rest) = Some ([e], 2)"
  unfolding unquote_step_def by (simp only: list.case if_True if_False simp_thms)

lemma unquote_step_control: "e = CHR ''b'' \<or> e = CHR ''f'' \<or> e = CHR ''n'' \<or> e = CHR ''r'' \<or> e = CHR ''t'' \<Longrightarrow>
  \<exists>k. unquote_step (CHR 0x5C # e # rest) = Some ([k], 2) \<and> (of_char k :: nat) < 0x80"
  unfolding unquote_step_def by (elim disjE; simp)

lemma unicode_escape_shape: "(case g1 of
             None \<Rightarrow> None
           | Some rr \<Rightarrow>
               if 0xD800 \<le> rr \<and> rr < 0xE000 then
                 (case g2 of
                    None \<Rightarrow> Some (EncodeRune RuneError, 6)
                  | Some rr1 \<Rightarrow>
                      if rr < 0xDC00 \<and> 0xDC00 \<le> rr1 \<and> rr1 < 0xE000 then
                        Some (EncodeRune ((rr - 0xD800) * 1024 + (rr1 - 0xDC00) + 0x10000), 12)
                      else Some (EncodeRune RuneError, (6::nat)))
               else Some (EncodeRune rr, 6)) = Some (out, n) \<Longrightarrow> \<exists>r. out = EncodeRune r"
  by (cases g1; cases g2; simp split: if_splits; blast)

lemma unquote_step_shape:
  assumes "unquote_step s = Some (out, n)"
  shows "(\<exists>c. out = [c] \<and> (of_char c :: nat) < 0x80) \<or> (\<exists>r. out = EncodeRune r)"
proof (cases s)
  case Nil
  with assms show ?thesis by (simp add: unquote_step_def)
next
  case (Cons c cs)
  show ?thesis
  proof (cases "c = CHR 0x5C")
    case True
    show ?thesis
    proof (cases cs)
      case Nil
      with assms Cons True show ?thesis by (simp add: unquote_step_def)
    next
      case cs: (Cons e rest)
      have s: "s = CHR 0x5C # e # rest" using Cons True cs by simp
      consider (plain) "e = CHR 0x22 \<or> e = CHR 0x5C \<or> e = CHR ''/''"
        | (ctl) "e = CHR ''b'' \<or> e = CHR ''f'' \<or> e = CHR ''n'' \<or> e = CHR ''r'' \<or> e = CHR ''t''"
        | (uni) "e = CHR ''u''"
        | (other) "e \<noteq> CHR 0x22" "e \<noteq> CHR 0x5C" "e \<noteq> CHR ''/''" "e \<noteq> CHR ''b''"
          "e \<noteq> CHR ''f''" "e \<noteq> CHR ''n''" "e \<noteq> CHR ''r''" "e \<noteq> CHR ''t''" "e \<noteq> CHR ''u''"
        by blast
      then show ?thesis
      proof cases
        case plain
        from assms unquote_step_plain[OF plain, of rest] have "out = [e]" unfolding s by simp
        moreover have "(of_char e :: nat) < 0x80" using plain by (elim disjE; simp)
        ultimately show ?thesis by blast
      next
        case ctl
        from unquote_step_control[OF ctl, of rest] obtain k where
          "unquote_step (CHR 0x5C # e # rest) = Some ([k], 2)" "(of_char k :: nat) < 0x80" by blast
        with assms have "out = [k] \<and> (of_char k :: nat) < 0x80" unfolding s by simp
        then show ?thesis by blast
      next
        case uni
        from assms have "\<exists>r. out = EncodeRune r"
          unfolding s uni unquote_step_unicode by (rule unicode_escape_shape)
        then show ?thesis by blast
      next
        case other
        from unquote_step_bad_escape[OF other, of rest] assms show ?thesis unfolding s by simp
      qed
    qed
  next
    case False
    show ?thesis
    proof (cases "c = CHR 0x22 \<or> (of_char c :: nat) < 0x20")
      case True
      from unquote_step_stop[OF False True, of cs] assms show ?thesis unfolding Cons by simp
    next
      case nq: False
      show ?thesis
      proof (cases "(of_char c :: nat) < 0x80")
        case True
        from unquote_step_ascii[OF False nq True, of cs] assms have "out = [c]" unfolding Cons by simp
        with True show ?thesis by blast
      next
        case hi: False
        from unquote_step_rune[OF False nq hi, of cs] assms have "out = EncodeRune (fst (DecodeRune (c # cs)))"
          unfolding Cons by simp
        then show ?thesis by blast
      qed
    qed
  qed
qed

lemma unquote_valid: "unquote s = Some (t, rest) \<Longrightarrow> ValidString t"
proof (induction s arbitrary: t rest rule: unquote.induct)
  case 1
  then show ?case by simp
next
  case (2 c cs)
  show ?case
  proof (cases "c = CHR 0x22")
    case True
    with "2.prems" show ?thesis by simp
  next
    case False
    from "2.prems" False obtain out n where st: "unquote_step (c # cs) = Some (out, n)"
      by (auto split: option.splits)
    from "2.prems" False st obtain t' where
      u: "unquote (drop (n - 1) cs) = Some (t', rest)" and t: "t = out @ t'"
      by (auto simp: emit_def)
    from "2.IH"[OF False st refl u] have v: "ValidString t'" .
    from unquote_step_shape[OF st] show ?thesis
    proof
      assume "\<exists>c. out = [c] \<and> (of_char c :: nat) < 0x80"
      then obtain a where a: "out = [a]" "(of_char a :: nat) < 0x80" by blast
      from ValidString_ascii_Cons[OF a(2), of t'] v show ?thesis
        unfolding t a(1) by (simp del: ValidString.simps)
    next
      assume "\<exists>r. out = EncodeRune r"
      then obtain r where r: "out = EncodeRune r" by blast
      from ValidString_EncodeRune_append[of r t'] v show ?thesis
        unfolding t r by (simp del: ValidString.simps)
    qed
  qed
qed

lemma scan_literal_valid:
  "scan_literal s = Some (JString x, r) \<Longrightarrow> ValidString x"
  by (cases s) (auto simp add: scan_literal_def simp del: ValidString.simps
        split: if_splits dest: unquote_valid)

lemma parse_value_valid:
  "parse_value n d s = Some (JString x, r) \<Longrightarrow> ValidString x"
proof (cases n)
  case 0
  then show "parse_value n d s = Some (JString x, r) \<Longrightarrow> ValidString x" by simp
next
  case (Suc m)
  assume a: "parse_value n d s = Some (JString x, r)"
  show "ValidString x"
  proof (cases "skip_ws s")
    case Nil
    with a Suc show ?thesis by simp
  next
    case (Cons c t)
    show ?thesis
    proof (cases "c = CHR ''{'' \<or> c = CHR ''[''")
      case True
      with a Suc Cons show ?thesis
        by (auto simp del: ValidString.simps parse_members.simps parse_elems.simps
              split: if_splits list.splits)
    next
      case False
      with a Suc Cons have "scan_literal (c # t) = Some (JString x, r)" by simp
      then show ?thesis by (rule scan_literal_valid)
    qed
  qed
qed

lemma parse_members_valid:
  "parse_members n d s = Some (ms, r) \<Longrightarrow> (k, JString x) \<in> set ms \<Longrightarrow> ValidString x"
proof (induction n arbitrary: s ms r)
  case 0
  then show ?case by simp
next
  case (Suc n)
  from Suc.prems(1) obtain k1 t1 where sk: "scan_key s = Some (k1, t1)"
    by (subst (asm) parse_members.simps(2)) (auto split: option.splits)
  from Suc.prems(1) sk obtain v r1 where pv: "parse_value n d t1 = Some (v, r1)"
    by (subst (asm) parse_members.simps(2)) (auto split: option.splits)
  from Suc.prems(1) sk pv obtain c t where ws: "skip_ws r1 = c # t"
    by (subst (asm) parse_members.simps(2)) (auto split: list.splits)
  have body: "(if c = CHR '','' then map_option (\<lambda>(ms, r'). ((k1, v) # ms, r')) (parse_members n d t)
                else if c = CHR ''}'' then Some ([(k1, v)], t) else None) = Some (ms, r)"
    using Suc.prems(1) sk pv ws by (subst (asm) parse_members.simps(2)) simp
  have hd: "v = JString x \<Longrightarrow> ValidString x"
    using pv parse_value_valid by blast
  show ?case
  proof (cases "c = CHR '',''")
    case True
    with body obtain ms' where p: "parse_members n d t = Some (ms', r)" and m: "ms = (k1, v) # ms'"
      by auto
    from Suc.prems(2) m have "(k, JString x) = (k1, v) \<or> (k, JString x) \<in> set ms'" by simp
    then show ?thesis
    proof
      assume "(k, JString x) = (k1, v)"
      then show ?thesis using hd by simp
    next
      assume "(k, JString x) \<in> set ms'"
      with Suc.IH[OF p] show ?thesis .
    qed
  next
    case False
    with body have "ms = [(k1, v)]" by (auto split: if_splits)
    with Suc.prems(2) hd show ?thesis by simp
  qed
qed

lemma valid_set_field:
  "valid_Product p \<Longrightarrow> ValidString x \<Longrightarrow> valid_Product (set_field f x p)"
  by (simp add: valid_Product_def set_field_def del: ValidString.simps)

lemma decode_members_valid:
  "decode_members ms p = Inr q \<Longrightarrow> valid_Product p \<Longrightarrow>
   (\<And>k x. (k, JString x) \<in> set ms \<Longrightarrow> ValidString x) \<Longrightarrow> valid_Product q"
proof (induction ms arbitrary: p)
  case Nil
  then show ?case by simp
next
  case (Cons m ms)
  obtain k v where m: "m = (k, v)" by (cases m)
  have rest: "\<And>k x. (k, JString x) \<in> set ms \<Longrightarrow> ValidString x"
  proof -
    fix k' x assume "(k', JString x) \<in> set ms"
    then have "(k', JString x) \<in> set (m # ms)" by simp
    then show "ValidString x" by (rule Cons.prems(3))
  qed
  have first: "\<And>x. v = JString x \<Longrightarrow> ValidString x"
  proof -
    fix x assume "v = JString x"
    then have "(k, JString x) \<in> set (m # ms)" using m by simp
    then show "ValidString x" by (rule Cons.prems(3))
  qed
  show ?case
  proof (cases "find_field k")
    case None
    with Cons.prems(1) m have "decode_members ms p = Inr q" by simp
    from Cons.IH[OF this Cons.prems(2) rest] show ?thesis .
  next
    case (Some f)
    show ?thesis
    proof (cases v)
      case (JString x)
      with Cons.prems(1) m Some have d: "decode_members ms (set_field f x p) = Inr q" by simp
      have "ValidString x" using first JString by blast
      from Cons.IH[OF d valid_set_field[OF Cons.prems(2) this] rest] show ?thesis .
    next
      case JNull
      with Cons.prems(1) m Some have "decode_members ms p = Inr q" by simp
      from Cons.IH[OF this Cons.prems(2) rest] show ?thesis .
    qed (use Cons.prems(1) m Some in simp_all)
  qed
qed

lemma valid_zero_Product: "valid_Product zero_Product"
  by (simp add: valid_Product_def zero_Product_def)

lemma Unmarshal_valid: "json_Unmarshal v = Inr p \<Longrightarrow> valid_Product p"
proof -
  assume a: "json_Unmarshal v = Inr p"
  then obtain j where pj: "parse_json v = Some j"
    by (auto simp add: json_Unmarshal_def split: option.splits)
  show ?thesis
  proof (cases j)
    case JNull
    with a pj show ?thesis by (simp add: json_Unmarshal_def valid_zero_Product)
  next
    case (JObject ms)
    with a pj have d: "decode_members ms zero_Product = Inr p" by (simp add: json_Unmarshal_def)
    from pj JObject obtain r where pv: "parse_value (Suc (2 * length v)) 0 v = Some (JObject ms, r)"
      by (auto simp add: parse_json_def simp del: parse_value.simps split: option.splits if_splits)
    have "\<And>k x. (k, JString x) \<in> set ms \<Longrightarrow> ValidString x"
    proof -
      fix k x assume mem: "(k, JString x) \<in> set ms"
      from pv obtain c t where ws: "skip_ws v = c # t"
        by (auto split: list.splits)
      show "ValidString x"
      proof (cases "c = CHR ''{''")
        case True
        from pv ws True obtain c' t' where ws': "skip_ws t = c' # t'"
          by (auto simp del: parse_members.simps split: list.splits if_splits)
        from pv ws True ws' mem have "c' \<noteq> CHR ''}''"
          by (auto simp del: parse_members.simps split: if_splits)
        with pv ws True ws' have "parse_members (2 * length v) (Suc 0) (c' # t') = Some (ms, r)"
          by (auto simp del: parse_members.simps split: if_splits)
        from parse_members_valid[OF this mem] show ?thesis .
      next
        case False
        with pv ws show ?thesis
          by (auto simp add: scan_literal_def simp del: parse_members.simps parse_elems.simps
                split: if_splits list.splits)
      qed
    qed
    from decode_members_valid[OF d valid_zero_Product this] show ?thesis .
  qed (use a pj in \<open>simp_all add: json_Unmarshal_def\<close>)
qed

lemma Unmarshal_coerce: "json_Unmarshal v = Inr p \<Longrightarrow> coerce_Product p = p"
  by (rule coerce_valid_Product) (rule Unmarshal_valid)

subsection \<open>Updating a product and reading it back\<close>

lemma QueryProduct_Inr:
  assumes "QueryProduct ctx pid = (Inr asset, ctx1)"
  shows "\<not> get_fails ctx pid" and "ctx1 = ctx" and "valid_Product asset"
proof -
  from assms obtain v where v: "\<not> get_fails ctx pid" "ctx1 = ctx" "json_Unmarshal v = Inr asset"
    by (auto simp: QueryProduct_def GetState_def split: if_splits option.splits sum.splits)
  show "\<not> get_fails ctx pid" "ctx1 = ctx" by (rule v)+
  show "valid_Product asset" using v(3) by (rule Unmarshal_valid)
qed

lemma QueryProduct_written:
  assumes "\<not> get_fails ctx pid"
  shows "QueryProduct (ctx\<lparr>world := AList.update pid (encode_Product U) (world ctx)\<rparr>) pid
      = (Inr (coerce_Product U), ctx\<lparr>world := AList.update pid (encode_Product U) (world ctx)\<rparr>)"
  using assms by (simp add: QueryProduct_def GetState_def update_conv' Unmarshal_Marshal)

lemma coerce_updated:
  assumes "valid_Product asset"
  shows "coerce_Product (asset\<lparr>Status := (if newStatus = [] then Status asset else newStatus),
            Owner := (if newOwner = [] then Owner asset else newOwner),
            Description := (if newDescription = [] then Description asset else newDescription),
            Category := (if newCategory = [] then Category asset else newCategory),
            UpdatedAt := curTime\<rparr>)
     = asset\<lparr>Status := (if newStatus = [] then Status asset else coerce_utf8 newStatus),
            Owner := (if newOwner = [] then Owner asset else coerce_utf8 newOwner),
            Description := (if newDescription = [] then Description asset else coerce_utf8 newDescription),
            Category := (if newCategory = [] then Category asset else coerce_utf8 newCategory),
            UpdatedAt := coerce_utf8 curTime\<rparr>"
  using assms
  by (cases asset) (simp add: coerce_Product_def valid_Product_def ValidString_coerce
      del: ValidString.simps)

lemma coerce_transferred:
  assumes "valid_Product asset"
  shows "coerce_Product (asset\<lparr>Owner := newOwner, UpdatedAt := curTime\<rparr>)
     = asset\<lparr>Owner := coerce_utf8 newOwner, UpdatedAt := coerce_utf8 curTime\<rparr>"
  using assms
  by (cases asset) (simp add: coerce_Product_def valid_Product_def ValidString_coerce
      del: ValidString.simps)

lemma update_fields_eq:
  "update_fields asset newStatus newOwner newDescription newCategory curTime =
     asset\<lparr>Status := (if newStatus = [] then Status asset else newStatus),
            Owner := (if newOwner = [] then Owner asset else newOwner),
            Description := (if newDescription = [] then Description asset else newDescription),
            Category := (if newCategory = [] then Category asset else newCategory),
            UpdatedAt := curTime\<rparr>"
  by (simp add: update_fields_def)

lemma UpdateProduct_writes:
  assumes "tx_timestamp ctx = Some (seconds, nanos)"
    and "QueryProduct ctx pid = (Inr asset, ctx)"
    and "U = update_fields asset newStatus newOwner newDescription newCategory
               (rfc3339 ctx seconds nanos)"
    and "\<not> put_fails ctx pid (encode_Product U)"
  shows "UpdateProduct ctx pid newStatus newOwner newDescription newCategory =
      (Inr (), ctx\<lparr>world := AList.update pid (encode_Product U) (world ctx)\<rparr>)"
  using assms(1,2,4) unfolding assms(3)
  by (simp add: UpdateProduct_def getTimestamp_def json_Marshal_def PutState_def)

lemma later_stub_simps:
  "world (later_stub w) = w" "tx_timestamp (later_stub w) = Some (1700035200, 0)"
  "rfc3339 (later_stub w) seconds nanos = ''2023-11-15T08:00:00Z''"
  "get_fails (later_stub w) k = False" "put_fails (later_stub w) k v = False"
  "(later_stub w)\<lparr>world := w'\<rparr> = later_stub w'"
  by (simp_all add: later_stub_def example_stub_def)

lemma query_later:
  "QueryProduct (later_stub [(''p1'', encode_Product example_product)]) ''p1''
    = (Inr example_product, later_stub [(''p1'', encode_Product example_product)])"
  by (simp add: QueryProduct_def GetState_def later_stub_simps Unmarshal_examples)

lemma coerce_examples:
  "coerce_utf8 ''Shipped'' = ''Shipped''" "coerce_utf8 ''CompanyC'' = ''CompanyC''"
  "coerce_utf8 ''2023-11-15T08:00:00Z'' = ''2023-11-15T08:00:00Z''"
  by (simp_all add: coerce_step_def)

text \<open>
  Claim C3, amended. For a product that \<open>QueryProduct\<close> reads under the id, with the
  timestamp available and the write accepted, \<open>UpdateProduct\<close> succeeds and writes the
  encoding of the updated product under the same key, and \<open>QueryProduct\<close> on the
  resulting state returns the product that was read with status, owner, description and
  category kept where the argument is empty and replaced where it is not by the argument
  coerced to well-formed UTF-8, with id, name and \<open>CreatedAt\<close> as they were, and with
  the transaction's timestamp, coerced likewise, as \<open>UpdatedAt\<close>. When the arguments
  and the rendered timestamp are well-formed UTF-8 the product returned holds exactly them.
  With four empty arguments the product returned differs from the one read in
  \<open>UpdatedAt\<close> only.
\<close>

theorem update_then_query_returns:
  fixes ctx :: stub and pid newStatus newOwner newDescription newCategory :: string
    and asset :: Product and seconds nanos :: int
  defines "curTime \<equiv> rfc3339 ctx seconds nanos"
  defines "U \<equiv> asset\<lparr>Status := (if newStatus = [] then Status asset else newStatus),
            Owner := (if newOwner = [] then Owner asset else newOwner),
            Description := (if newDescription = [] then Description asset else newDescription),
            Category := (if newCategory = [] then Category asset else newCategory),
            UpdatedAt := curTime\<rparr>"
  defines "ctx' \<equiv> ctx\<lparr>world := AList.update pid (encode_Product U) (world ctx)\<rparr>"
  assumes ts: "tx_timestamp ctx = Some (seconds, nanos)"
    and q: "QueryProduct ctx pid = (Inr asset, ctx)"
    and put: "\<not> put_fails ctx pid (encode_Product U)"
  shows "UpdateProduct ctx pid newStatus newOwner newDescription newCategory = (Inr (), ctx')
    \<and> QueryProduct ctx' pid =
        (Inr (asset\<lparr>Status := (if newStatus = [] then Status asset else coerce_utf8 newStatus),
            Owner := (if newOwner = [] then Owner asset else coerce_utf8 newOwner),
            Description := (if newDescription = [] then Description asset else coerce_utf8 newDescription),
            Category := (if newCategory = [] then Category asset else coerce_utf8 newCategory),
            UpdatedAt := coerce_utf8 curTime\<rparr>), ctx')
    \<and> (ValidString newStatus \<and> ValidString newOwner \<and> ValidString newDescription
         \<and> ValidString newCategory \<and> ValidString curTime
        \<longrightarrow> QueryProduct ctx' pid = (Inr U, ctx'))
    \<and> (newStatus = [] \<and> newOwner = [] \<and> newDescription = [] \<and> newCategory = []
        \<longrightarrow> QueryProduct ctx' pid = (Inr (asset\<lparr>UpdatedAt := coerce_utf8 curTime\<rparr>), ctx'))"
proof -
  have Ueq: "U = update_fields asset newStatus newOwner newDescription newCategory
                   (rfc3339 ctx seconds nanos)"
    unfolding update_fields_eq by (simp add: U_def curTime_def)
  note g = QueryProduct_Inr[OF q]
  have w: "UpdateProduct ctx pid newStatus newOwner newDescription newCategory = (Inr (), ctx')"
    unfolding ctx'_def by (rule UpdateProduct_writes[OF ts q Ueq put])
  have r: "QueryProduct ctx' pid = (Inr (coerce_Product U), ctx')"
    unfolding ctx'_def by (rule QueryProduct_written[OF g(1)])
  have c: "coerce_Product U =
      asset\<lparr>Status := (if newStatus = [] then Status asset else coerce_utf8 newStatus),
            Owner := (if newOwner = [] then Owner asset else coerce_utf8 newOwner),
            Description := (if newDescription = [] then Description asset else coerce_utf8 newDescription),
            Category := (if newCategory = [] then Category asset else coerce_utf8 newCategory),
            UpdatedAt := coerce_utf8 curTime\<rparr>"
    unfolding U_def by (rule coerce_updated[OF g(3)])
  have e: "coerce_Product U = U" if "ValidString newStatus \<and> ValidString newOwner
      \<and> ValidString newDescription \<and> ValidString newCategory \<and> ValidString curTime"
    using that g(3) by (intro coerce_valid_Product) (simp add: valid_Product_def U_def)
  have n: "coerce_Product U = asset\<lparr>UpdatedAt := coerce_utf8 curTime\<rparr>"
    if "newStatus = [] \<and> newOwner = [] \<and> newDescription = [] \<and> newCategory = []"
    using that unfolding c by simp
  show ?thesis using w r c e n by simp
qed

theorem update_then_query_returns_witness:
  "UpdateProduct (later_stub [(''p1'', encode_Product example_product)]) ''p1'' ''Shipped'' ''CompanyC'' [] []
     = (Inr (), later_stub [(''p1'', encode_Product (example_product\<lparr>Status := ''Shipped'',
          Owner := ''CompanyC'', UpdatedAt := ''2023-11-15T08:00:00Z''\<rparr>))])
   \<and> QueryProduct (later_stub [(''p1'', encode_Product (example_product\<lparr>Status := ''Shipped'',
          Owner := ''CompanyC'', UpdatedAt := ''2023-11-15T08:00:00Z''\<rparr>))]) ''p1''
     = (Inr (example_product\<lparr>Status := ''Shipped'', Owner := ''CompanyC'',
          UpdatedAt := ''2023-11-15T08:00:00Z''\<rparr>),
        later_stub [(''p1'', encode_Product (example_product\<lparr>Status := ''Shipped'',
          Owner := ''CompanyC'', UpdatedAt := ''2023-11-15T08:00:00Z''\<rparr>))])
   \<and> UpdateProduct (later_stub [(''p1'', encode_Product example_product)]) ''p1'' [] [] [] []
     = (Inr (), later_stub [(''p1'', encode_Product (example_product\<lparr>UpdatedAt := ''2023-11-15T08:00:00Z''\<rparr>))])
   \<and> QueryProduct (later_stub [(''p1'', encode_Product (example_product\<lparr>UpdatedAt := ''2023-11-15T08:00:00Z''\<rparr>))]) ''p1''
     = (Inr (example_product\<lparr>UpdatedAt := ''2023-11-15T08:00:00Z''\<rparr>),
        later_stub [(''p1'', encode_Product (example_product\<lparr>UpdatedAt := ''2023-11-15T08:00:00Z''\<rparr>))])
   \<and> UpdatedAt example_product \<noteq> ''2023-11-15T08:00:00Z''"
proof -
  let ?ctx = "later_stub [(''p1'', encode_Product example_product)]"
  have ts: "tx_timestamp ?ctx = Some (1700035200, 0)" by (simp add: later_stub_simps)
  have put: "\<not> put_fails ?ctx ''p1'' v" for v by (simp add: later_stub_simps)
  note a = update_then_query_returns[where ctx = ?ctx and pid = "''p1''" and asset = example_product
      and seconds = 1700035200 and nanos = 0 and newStatus = "''Shipped''"
      and newOwner = "''CompanyC''" and newDescription = "[]" and newCategory = "[]",
      OF ts query_later put]
  note b = update_then_query_returns[where ctx = ?ctx and pid = "''p1''" and asset = example_product
      and seconds = 1700035200 and nanos = 0 and newStatus = "[]"
      and newOwner = "[]" and newDescription = "[]" and newCategory = "[]",
      OF ts query_later put]
  have u: "UpdatedAt example_product \<noteq> ''2023-11-15T08:00:00Z''"
    by (simp add: example_product_def)
  from a b u show ?thesis
    by (simp add: later_stub_simps coerce_examples del: coerce_utf8.simps(2) ValidString.simps)
qed

text \<open>
  The claim as stated, for every argument tuple, fails for a new owner that is the single
  byte \<open>0xFF\<close>: the product read back after the update has the three bytes of U+FFFD
  as its owner.
\<close>

theorem update_invalid_utf8_counterexample:
  "fst (UpdateProduct (later_stub [(''p1'', encode_Product example_product)]) ''p1'' [] [CHR 0xFF] [] [])
     = Inr ()
   \<and> fst (QueryProduct (snd (UpdateProduct (later_stub [(''p1'', encode_Product example_product)])
          ''p1'' [] [CHR 0xFF] [] [])) ''p1'')
     = Inr (example_product\<lparr>Owner := [CHR 0xEF, CHR 0xBF, CHR 0xBD],
          UpdatedAt := ''2023-11-15T08:00:00Z''\<rparr>)
   \<and> Owner (example_product\<lparr>Owner := [CHR 0xEF, CHR 0xBF, CHR 0xBD],
          UpdatedAt := ''2023-11-15T08:00:00Z''\<rparr>) \<noteq> [CHR 0xFF]"
proof -
  let ?ctx = "later_stub [(''p1'', encode_Product example_product)]"
  let ?U = "update_fields example_product [] [CHR 0xFF] [] [] (rfc3339 ?ctx 1700035200 0)"
  have ts: "tx_timestamp ?ctx = Some (1700035200, 0)" by (simp add: later_stub_simps)
  have put: "\<not> put_fails ?ctx ''p1'' (encode_Product ?U)" by (simp add: later_stub_simps)
  have g: "\<not> get_fails ?ctx ''p1''" by (simp add: later_stub_simps)
  note w = UpdateProduct_writes[OF ts query_later refl put]
  note r = QueryProduct_written[OF g, of ?U]
  have c: "coerce_Product ?U = example_product\<lparr>Owner := [CHR 0xEF, CHR 0xBF, CHR 0xBD],
          UpdatedAt := ''2023-11-15T08:00:00Z''\<rparr>"
    using coerce_updated[OF valid_example_product, where newStatus = "[]"
        and newOwner = "[CHR 0xFF]" and newDescription = "[]" and newCategory = "[]"
        and curTime = "''2023-11-15T08:00:00Z''"]
    by (simp add: update_fields_eq later_stub_simps coerce_examples coerce_invalid_byte
        del: coerce_utf8.simps(2))
  show ?thesis unfolding w using r c by simp
qed

subsection \<open>Transferring ownership and reading the product back\<close>

lemma TransferOwnership_writes:
  assumes "tx_timestamp ctx = Some (seconds, nanos)"
    and "QueryProduct ctx pid = (Inr asset, ctx)"
    and "U = asset\<lparr>Owner := newOwner, UpdatedAt := rfc3339 ctx seconds nanos\<rparr>"
    and "\<not> put_fails ctx pid (encode_Product U)"
  shows "TransferOwnership ctx pid newOwner =
      (Inr (), ctx\<lparr>world := AList.update pid (encode_Product U) (world ctx)\<rparr>)"
  using assms
  by (simp add: TransferOwnership_def getTimestamp_def json_Marshal_def PutState_def)

text \<open>
  Claim C4, amended. Under the same conditions \<open>TransferOwnership\<close> succeeds and writes
  the encoding of the product it read with the new owner and the new timestamp, and
  \<open>QueryProduct\<close> on the resulting state returns the product that was read with the
  argument, coerced to well-formed UTF-8, as its owner and the transaction's timestamp,
  coerced likewise, as \<open>UpdatedAt\<close>; every other field is as it was. When the argument
  and the rendered timestamp are well-formed UTF-8 the owner returned is exactly the argument;
  the empty string is stored and returned as the owner.
\<close>

theorem transfer_then_query_returns:
  fixes ctx :: stub and pid newOwner :: string and asset :: Product and seconds nanos :: int
  defines "curTime \<equiv> rfc3339 ctx seconds nanos"
  defines "U \<equiv> asset\<lparr>Owner := newOwner, UpdatedAt := curTime\<rparr>"
  defines "ctx' \<equiv> ctx\<lparr>world := AList.update pid (encode_Product U) (world ctx)\<rparr>"
  assumes ts: "tx_timestamp ctx = Some (seconds, nanos)"
    and q: "QueryProduct ctx pid = (Inr asset, ctx)"
    and put: "\<not> put_fails ctx pid (encode_Product U)"
  shows "TransferOwnership ctx pid newOwner = (Inr (), ctx')
    \<and> QueryProduct ctx' pid =
        (Inr (asset\<lparr>Owner := coerce_utf8 newOwner, UpdatedAt := coerce_utf8 curTime\<rparr>), ctx')
    \<and> (ValidString newOwner \<and> ValidString curTime \<longrightarrow> QueryProduct ctx' pid = (Inr U, ctx'))
    \<and> (newOwner = [] \<longrightarrow>
          QueryProduct ctx' pid = (Inr (asset\<lparr>Owner := [], UpdatedAt := coerce_utf8 curTime\<rparr>), ctx'))"
proof -
  have Ueq: "U = asset\<lparr>Owner := newOwner, UpdatedAt := rfc3339 ctx seconds nanos\<rparr>"
    by (simp add: U_def curTime_def)
  note g = QueryProduct_Inr[OF q]
  have w: "TransferOwnership ctx pid newOwner = (Inr (), ctx')"
    unfolding ctx'_def by (rule TransferOwnership_writes[OF ts q Ueq put])
  have r: "QueryProduct ctx' pid = (Inr (coerce_Product U), ctx')"
    unfolding ctx'_def by (rule QueryProduct_written[OF g(1)])
  have c: "coerce_Product U = asset\<lparr>Owner := coerce_utf8 newOwner, UpdatedAt := coerce_utf8 curTime\<rparr>"
    unfolding U_def by (rule coerce_transferred[OF g(3)])
  have e: "coerce_Product U = U" if "ValidString newOwner \<and> ValidString curTime"
    using that g(3) by (intro coerce_valid_Product) (simp add: valid_Product_def U_def)
  have n: "coerce_Product U = asset\<lparr>Owner := [], UpdatedAt := coerce_utf8 curTime\<rparr>"
    if "newOwner = []"
    using that unfolding c by simp
  show ?thesis using w r c e n by simp
qed

theorem transfer_then_query_returns_witness:
  "TransferOwnership (later_stub [(''p1'', encode_Product example_product)]) ''p1'' ''CompanyC''
     = (Inr (), later_stub [(''p1'', encode_Product (example_product\<lparr>Owner := ''CompanyC'',
          UpdatedAt := ''2023-11-15T08:00:00Z''\<rparr>))])
   \<and> QueryProduct (later_stub [(''p1'', encode_Product (example_product\<lparr>Owner := ''CompanyC'',
          UpdatedAt := ''2023-11-15T08:00:00Z''\<rparr>))]) ''p1''
     = (Inr (example_product\<lparr>Owner := ''CompanyC'', UpdatedAt := ''2023-11-15T08:00:00Z''\<rparr>),
        later_stub [(''p1'', encode_Product (example_product\<lparr>Owner := ''CompanyC'',
          UpdatedAt := ''2023-11-15T08:00:00Z''\<rparr>))])
   \<and> TransferOwnership (later_stub [(''p1'', encode_Product example_product)]) ''p1'' []
     = (Inr (), later_stub [(''p1'', encode_Product (example_product\<lparr>Owner := [],
          UpdatedAt := ''2023-11-15T08:00:00Z''\<rparr>))])
   \<and> QueryProduct (later_stub [(''p1'', encode_Product (example_product\<lparr>Owner := [],
          UpdatedAt := ''2023-11-15T08:00:00Z''\<rparr>))]) ''p1''
     = (Inr (example_product\<lparr>Owner := [], UpdatedAt := ''2023-11-15T08:00:00Z''\<rparr>),
        later_stub [(''p1'', encode_Product (example_product\<lparr>Owner := [],
          UpdatedAt := ''2023-11-15T08:00:00Z''\<rparr>))])
   \<and> UpdatedAt example_product \<noteq> ''2023-11-15T08:00:00Z''
   \<and> Owner example_product \<noteq> ''CompanyC'' \<and> Owner example_product \<noteq> []"
proof -
  let ?ctx = "later_stub [(''p1'', encode_Product example_product)]"
  have ts: "tx_timestamp ?ctx = Some (1700035200, 0)" by (simp add: later_stub_simps)
  have put: "\<not> put_fails ?ctx ''p1'' v" for v by (simp add: later_stub_simps)
  note a = transfer_then_query_returns[where ctx = ?ctx and pid = "''p1''" and asset = example_product
      and seconds = 1700035200 and nanos = 0 and newOwner = "''CompanyC''",
      OF ts query_later put]
  note b = transfer_then_query_returns[where ctx = ?ctx and pid = "''p1''" and asset = example_product
      and seconds = 1700035200 and nanos = 0 and newOwner = "[]",
      OF ts query_later put]
  have u: "UpdatedAt example_product \<noteq> ''2023-11-15T08:00:00Z''"
    "Owner example_product \<noteq> ''CompanyC''" "Owner example_product \<noteq> []"
    by (simp_all add: example_product_def)
  from a b u show ?thesis
    by (simp add: later_stub_simps coerce_examples del: coerce_utf8.simps(2) ValidString.simps)
qed

text \<open>
  The claim as stated, for every new owner, fails for the single byte \<open>0xFF\<close>: the
  product read back after the transfer has the three bytes of U+FFFD as its owner.
\<close>

theorem transfer_invalid_utf8_counterexample:
  "fst (TransferOwnership (later_stub [(''p1'', encode_Product example_product)]) ''p1'' [CHR 0xFF])
     = Inr ()
   \<and> fst (QueryProduct (snd (TransferOwnership (later_stub [(''p1'', encode_Product example_product)])
          ''p1'' [CHR 0xFF])) ''p1'')
     = Inr (example_product\<lparr>Owner := [CHR 0xEF, CHR 0xBF, CHR 0xBD],
          UpdatedAt := ''2023-11-15T08:00:00Z''\<rparr>)
   \<and> Owner (example_product\<lparr>Owner := [CHR 0xEF, CHR 0xBF, CHR 0xBD],
          UpdatedAt := ''2023-11-15T08:00:00Z''\<rparr>) \<noteq> [CHR 0xFF]"
proof -
  let ?ctx = "later_stub [(''p1'', encode_Product example_product)]"
  let ?U = "example_product\<lparr>Owner := [CHR 0xFF], UpdatedAt := rfc3339 ?ctx 1700035200 0\<rparr>"
  have ts: "tx_timestamp ?ctx = Some (1700035200, 0)" by (simp add: later_stub_simps)
  have put: "\<not> put_fails ?ctx ''p1'' (encode_Product ?U)" by (simp add: later_stub_simps)
  have g: "\<not> get_fails ?ctx ''p1''" by (simp add: later_stub_simps)
  note w = TransferOwnership_writes[OF ts query_later refl put]
  note r = QueryProduct_written[OF g, of ?U]
  have c: "coerce_Product ?U = example_product\<lparr>Owner := [CHR 0xEF, CHR 0xBF, CHR 0xBD],
          UpdatedAt := ''2023-11-15T08:00:00Z''\<rparr>"
    by (simp add: coerce_transferred[OF valid_example_product] later_stub_simps coerce_examples
        coerce_invalid_byte del: coerce_utf8.simps(2))
  show ?thesis unfolding w using r c by simp
qed

subsection \<open>Seeding the ledger and reading the products back\<close>

lemma InitLedger_writes:
  assumes "tx_timestamp ctx = Some (seconds, nanos)"
    and "P1 = \<lparr>ID = ''p1'', Name = ''Laptop'', Status = ''Manufactured'', Owner = ''CompanyA'',
           CreatedAt = rfc3339 ctx seconds nanos, UpdatedAt = rfc3339 ctx seconds nanos,
           Description = ''High-end gaming laptop'', Category = ''Electronics''\<rparr>"
    and "P2 = \<lparr>ID = ''p2'', Name = ''Smartphone'', Status = ''Manufactured'', Owner = ''CompanyB'',
           CreatedAt = rfc3339 ctx seconds nanos, UpdatedAt = rfc3339 ctx seconds nanos,
           Description = ''Latest model smartphone'', Category = ''Electronics''\<rparr>"
    and "\<not> put_fails ctx ''p1'' (encode_Product P1)"
    and "\<not> put_fails ctx ''p2'' (encode_Product P2)"
  shows "InitLedger ctx =
      (Inr (), ctx\<lparr>world := AList.update ''p2'' (encode_Product P2)
                 (AList.update ''p1'' (encode_Product P1) (world ctx))\<rparr>)"
  using assms(1,4,5) unfolding assms(2,3)
  by (simp add: InitLedger_def getTimestamp_def seed_assets_def json_Marshal_def PutState_def)

lemma coerce_seeded:
  "coerce_Product \<lparr>ID = ''p1'', Name = ''Laptop'', Status = ''Manufactured'', Owner = ''CompanyA'',
           CreatedAt = t, UpdatedAt = t,
           Description = ''High-end gaming laptop'', Category = ''Electronics''\<rparr>
    = \<lparr>ID = ''p1'', Name = ''Laptop'', Status = ''Manufactured'', Owner = ''CompanyA'',
           CreatedAt = coerce_utf8 t, UpdatedAt = coerce_utf8 t,
           Description = ''High-end gaming laptop'', Category = ''Electronics''\<rparr>"
  "coerce_Product \<lparr>ID = ''p2'', Name = ''Smartphone'', Status = ''Manufactured'', Owner = ''CompanyB'',
           CreatedAt = t, UpdatedAt = t,
           Description = ''Latest model smartphone'', Category = ''Electronics''\<rparr>
    = \<lparr>ID = ''p2'', Name = ''Smartphone'', Status = ''Manufactured'', Owner = ''CompanyB'',
           CreatedAt = coerce_utf8 t, UpdatedAt = coerce_utf8 t,
           Description = ''Latest model smartphone'', Category = ''Electronics''\<rparr>"
proof -
  have "coerce_utf8 ''p1'' = ''p1''" "coerce_utf8 ''Laptop'' = ''Laptop''"
    "coerce_utf8 ''Manufactured'' = ''Manufactured''" "coerce_utf8 ''CompanyA'' = ''CompanyA''"
    "coerce_utf8 ''High-end gaming laptop'' = ''High-end gaming laptop''"
    "coerce_utf8 ''Electronics'' = ''Electronics''"
    "coerce_utf8 ''p2'' = ''p2''" "coerce_utf8 ''Smartphone'' = ''Smartphone''"
    "coerce_utf8 ''CompanyB'' = ''CompanyB''"
    "coerce_utf8 ''Latest model smartphone'' = ''Latest model smartphone''"
    by (simp_all add: coerce_step_def)
  then show
    "coerce_Product \<lparr>ID = ''p1'', Name = ''Laptop'', Status = ''Manufactured'', Owner = ''CompanyA'',
           CreatedAt = t, UpdatedAt = t,
           Description = ''High-end gaming laptop'', Category = ''Electronics''\<rparr>
    = \<lparr>ID = ''p1'', Name = ''Laptop'', Status = ''Manufactured'', Owner = ''CompanyA'',
           CreatedAt = coerce_utf8 t, UpdatedAt = coerce_utf8 t,
           Description = ''High-end gaming laptop'', Category = ''Electronics''\<rparr>"
    "coerce_Product \<lparr>ID = ''p2'', Name = ''Smartphone'', Status = ''Manufactured'', Owner = ''CompanyB'',
           CreatedAt = t, UpdatedAt = t,
           Description = ''Latest model smartphone'', Category = ''Electronics''\<rparr>
    = \<lparr>ID = ''p2'', Name = ''Smartphone'', Status = ''Manufactured'', Owner = ''CompanyB'',
           CreatedAt = coerce_utf8 t, UpdatedAt = coerce_utf8 t,
           Description = ''Latest model smartphone'', Category = ''Electronics''\<rparr>"
    by (simp_all add: coerce_Product_def del: coerce_utf8.simps)
qed

lemma QueryProduct_stored:
  assumes "\<not> get_fails ctx pid" and "map_of (world ctx) pid = Some (encode_Product P)"
  shows "QueryProduct ctx pid = (Inr (coerce_Product P), ctx)"
  using assms by (simp add: QueryProduct_def GetState_def Unmarshal_Marshal)

text \<open>
  Claim C7. With the timestamp available and the two writes accepted, \<open>InitLedger\<close>
  succeeds whatever the world state held before, and the state it leaves is the one it
  received with two writes made: under \<open>p1\<close> the encoding of the product Laptop of
  CompanyA, under \<open>p2\<close> the encoding of the product Smartphone of CompanyB, both with
  status Manufactured and with the transaction's timestamp as \<open>CreatedAt\<close> and
  \<open>UpdatedAt\<close>. Values stored before under \<open>p1\<close> and \<open>p2\<close> are replaced,
  every other key holds what it held. \<open>QueryProduct\<close> on the resulting state returns
  these two products, with the rendered timestamp in both time fields; the timestamp is
  returned as it was rendered when the rendering is well-formed UTF-8, as that of
  \<^verbatim>\<open>time.RFC3339\<close> is.
\<close>

theorem init_ledger_seeds:
  fixes ctx :: stub and seconds nanos :: int
  defines "curTime \<equiv> rfc3339 ctx seconds nanos"
  defines "P1 \<equiv> \<lparr>ID = ''p1'', Name = ''Laptop'', Status = ''Manufactured'', Owner = ''CompanyA'',
           CreatedAt = curTime, UpdatedAt = curTime,
           Description = ''High-end gaming laptop'', Category = ''Electronics''\<rparr>"
  defines "P2 \<equiv> \<lparr>ID = ''p2'', Name = ''Smartphone'', Status = ''Manufactured'', Owner = ''CompanyB'',
           CreatedAt = curTime, UpdatedAt = curTime,
           Description = ''Latest model smartphone'', Category = ''Electronics''\<rparr>"
  defines "ctx' \<equiv> ctx\<lparr>world := AList.update ''p2'' (encode_Product P2)
                 (AList.update ''p1'' (encode_Product P1) (world ctx))\<rparr>"
  assumes ts: "tx_timestamp ctx = Some (seconds, nanos)"
    and put1: "\<not> put_fails ctx ''p1'' (encode_Product P1)"
    and put2: "\<not> put_fails ctx ''p2'' (encode_Product P2)"
  shows "InitLedger ctx = (Inr (), ctx')
    \<and> map_of (world ctx') ''p1'' = Some (encode_Product P1)
    \<and> map_of (world ctx') ''p2'' = Some (encode_Product P2)
    \<and> (\<forall>k. k \<noteq> ''p1'' \<and> k \<noteq> ''p2'' \<longrightarrow> map_of (world ctx') k = map_of (world ctx) k)
    \<and> (\<not> get_fails ctx ''p1'' \<longrightarrow>
         QueryProduct ctx' ''p1'' =
           (Inr \<lparr>ID = ''p1'', Name = ''Laptop'', Status = ''Manufactured'', Owner = ''CompanyA'',
                 CreatedAt = coerce_utf8 curTime, UpdatedAt = coerce_utf8 curTime,
                 Description = ''High-end gaming laptop'', Category = ''Electronics''\<rparr>, ctx'))
    \<and> (\<not> get_fails ctx ''p2'' \<longrightarrow>
         QueryProduct ctx' ''p2'' =
           (Inr \<lparr>ID = ''p2'', Name = ''Smartphone'', Status = ''Manufactured'', Owner = ''CompanyB'',
                 CreatedAt = coerce_utf8 curTime, UpdatedAt = coerce_utf8 curTime,
                 Description = ''Latest model smartphone'', Category = ''Electronics''\<rparr>, ctx'))
    \<and> (ValidString curTime \<and> \<not> get_fails ctx ''p1'' \<and> \<not> get_fails ctx ''p2'' \<longrightarrow>
         QueryProduct ctx' ''p1'' = (Inr P1, ctx') \<and> QueryProduct ctx' ''p2'' = (Inr P2, ctx'))"
proof -
  have e1: "P1 = \<lparr>ID = ''p1'', Name = ''Laptop'', Status = ''Manufactured'', Owner = ''CompanyA'',
           CreatedAt = rfc3339 ctx seconds nanos, UpdatedAt = rfc3339 ctx seconds nanos,
           Description = ''High-end gaming laptop'', Category = ''Electronics''\<rparr>"
    by (simp add: P1_def curTime_def)
  have e2: "P2 = \<lparr>ID = ''p2'', Name = ''Smartphone'', Status = ''Manufactured'', Owner = ''CompanyB'',
           CreatedAt = rfc3339 ctx seconds nanos, UpdatedAt = rfc3339 ctx seconds nanos,
           Description = ''Latest model smartphone'', Category = ''Electronics''\<rparr>"
    by (simp add: P2_def curTime_def)
  have w: "InitLedger ctx = (Inr (), ctx')"
    unfolding ctx'_def by (rule InitLedger_writes[OF ts e1 e2 put1 put2])
  have m1: "map_of (world ctx') ''p1'' = Some (encode_Product P1)"
    and m2: "map_of (world ctx') ''p2'' = Some (encode_Product P2)"
    and mk: "\<forall>k. k \<noteq> ''p1'' \<and> k \<noteq> ''p2'' \<longrightarrow> map_of (world ctx') k = map_of (world ctx) k"
    by (simp_all add: ctx'_def update_conv')
  have g: "get_fails ctx' = get_fails ctx" by (simp add: ctx'_def)
  have q1: "QueryProduct ctx' ''p1'' = (Inr (coerce_Product P1), ctx')" if "\<not> get_fails ctx ''p1''"
    by (rule QueryProduct_stored[OF _ m1]) (simp add: g that)
  have q2: "QueryProduct ctx' ''p2'' = (Inr (coerce_Product P2), ctx')" if "\<not> get_fails ctx ''p2''"
    by (rule QueryProduct_stored[OF _ m2]) (simp add: g that)
  have c1: "coerce_Product P1 = \<lparr>ID = ''p1'', Name = ''Laptop'', Status = ''Manufactured'',
      Owner = ''CompanyA'', CreatedAt = coerce_utf8 curTime, UpdatedAt = coerce_utf8 curTime,
      Description = ''High-end gaming laptop'', Category = ''Electronics''\<rparr>"
    unfolding P1_def by (rule coerce_seeded(1))
  have c2: "coerce_Product P2 = \<lparr>ID = ''p2'', Name = ''Smartphone'', Status = ''Manufactured'',
      Owner = ''CompanyB'', CreatedAt = coerce_utf8 curTime, UpdatedAt = coerce_utf8 curTime,
      Description = ''Latest model smartphone'', Category = ''Electronics''\<rparr>"
    unfolding P2_def by (rule coerce_seeded(2))
  have v: "coerce_Product P1 = P1 \<and> coerce_Product P2 = P2" if "ValidString curTime"
    unfolding c1 c2 using ValidString_coerce[OF that] by (simp add: P1_def P2_def)
  have x: "QueryProduct ctx' ''p1'' = (Inr P1, ctx') \<and> QueryProduct ctx' ''p2'' = (Inr P2, ctx')"
    if "ValidString curTime \<and> \<not> get_fails ctx ''p1'' \<and> \<not> get_fails ctx ''p2''"
    using q1 q2 v that by simp
  from w m1 m2 mk q1 q2 x show ?thesis unfolding c1 c2 by blast
qed

theorem init_ledger_seeds_witness:
  "InitLedger (example_stub [(''p1'', ''old''), (''p3'', ''x'')]) =
      (Inr (), example_stub [(''p1'', encode_Product example_product), (''p3'', ''x''),
                             (''p2'', encode_Product example_product2)])
   \<and> QueryProduct (example_stub [(''p1'', encode_Product example_product), (''p3'', ''x''),
                             (''p2'', encode_Product example_product2)]) ''p1''
      = (Inr example_product, example_stub [(''p1'', encode_Product example_product), (''p3'', ''x''),
                             (''p2'', encode_Product example_product2)])
   \<and> QueryProduct (example_stub [(''p1'', encode_Product example_product), (''p3'', ''x''),
                             (''p2'', encode_Product example_product2)]) ''p2''
      = (Inr example_product2, example_stub [(''p1'', encode_Product example_product), (''p3'', ''x''),
                             (''p2'', encode_Product example_product2)])
   \<and> map_of (world (example_stub [(''p1'', encode_Product example_product), (''p3'', ''x''),
                             (''p2'', encode_Product example_product2)])) ''p3'' = Some ''x''
   \<and> map_of (world (example_stub [(''p1'', ''old''), (''p3'', ''x'')])) ''p1'' = Some ''old''"
proof -
  let ?ctx = "example_stub [(''p1'', ''old''), (''p3'', ''x'')]"
  have ts: "tx_timestamp ?ctx = Some (1700000000, 0)" by (simp add: example_stub_simps)
  have put: "\<not> put_fails ?ctx k v" for k v by (simp add: example_stub_simps)
  have c: "coerce_utf8 ''2023-11-14T22:13:20Z'' = ''2023-11-14T22:13:20Z''"
    by (simp add: coerce_step_def)
  note a = init_ledger_seeds[where ctx = ?ctx and seconds = 1700000000 and nanos = 0,
      OF ts put put]
  from a show ?thesis
    by (simp add: example_stub_simps example_product_def example_product2_def c
        del: coerce_utf8.simps(2) ValidString.simps)
qed

subsection \<open>What every stored record satisfies\<close>

lemma record_ok_encode:
  assumes "Status P \<noteq> []" and "coerce_utf8 (ID P) = coerce_utf8 k"
  shows "record_ok k (encode_Product P)"
  using assms by (simp add: record_ok_def Unmarshal_Marshal coerce_Product_def coerce_utf8_Nil_iff)

lemma world_ok_update:
  assumes "world_ok w" and "record_ok k v"
  shows "world_ok (AList.update k v w)"
  using assms by (induction w) (auto simp: world_ok_def)

lemma world_ok_lookup:
  assumes "world_ok w" and "map_of w k = Some v"
  shows "record_ok k v"
  using assms map_of_SomeD[OF assms(2)] by (auto simp: world_ok_def list_all_iff)

lemma world_ok_PutState:
  assumes "world_ok (world ctx)" and "record_ok k v"
  shows "world_ok (world (snd (PutState ctx k v)))"
  using assms world_ok_update[OF assms] by (simp add: PutState_def)

lemma world_ok_Create:
  assumes "world_ok (world ctx)"
  shows "world_ok (world (snd (CreateProduct ctx pid name owner description category)))"
proof -
  have "record_ok pid (encode_Product \<lparr>ID = pid, Name = name, Status = ''Manufactured'',
      Owner = owner, CreatedAt = t, UpdatedAt = t, Description = description,
      Category = category\<rparr>)" for t
    by (rule record_ok_encode) simp_all
  from world_ok_PutState[OF assms this] assms show ?thesis
    by (auto simp: CreateProduct_def getTimestamp_def ProductExists_def json_Marshal_def Let_def
        split: option.splits sum.splits prod.splits)
qed

lemma QueryProduct_ok:
  assumes "world_ok (world ctx)" and "QueryProduct ctx pid = (Inr asset, ctx')"
  shows "Status asset \<noteq> [] \<and> ID asset = coerce_utf8 pid"
proof -
  from assms(2) obtain v where v: "map_of (world ctx) pid = Some v" "json_Unmarshal v = Inr asset"
    by (auto simp: QueryProduct_def GetState_def split: if_splits option.splits sum.splits)
  from world_ok_lookup[OF assms(1) v(1)] v(2) show ?thesis by (simp add: record_ok_def)
qed

lemma world_ok_Update:
  assumes "world_ok (world ctx)"
  shows "world_ok (world (snd (UpdateProduct ctx pid newStatus newOwner newDescription newCategory)))"
proof (cases "QueryProduct ctx pid")
  case (Pair res ctx1)
  have c1: "ctx1 = ctx" using Pair by (auto simp: QueryProduct_def split: sum.splits option.splits)
  show ?thesis
  proof (cases res)
    case (Inl e)
    with Pair c1 assms show ?thesis
      by (auto simp: UpdateProduct_def getTimestamp_def split: option.splits)
  next
    case (Inr asset)
    from QueryProduct_ok[OF assms Pair[unfolded Inr]]
    have a: "Status asset \<noteq> []" "ID asset = coerce_utf8 pid" by simp_all
    have "record_ok pid (encode_Product (update_fields asset newStatus newOwner newDescription newCategory t))" for t
      by (rule record_ok_encode) (simp_all add: update_fields_def a coerce_utf8_idem)
    from world_ok_PutState[OF assms this] Pair Inr c1 assms show ?thesis
      by (auto simp: UpdateProduct_def getTimestamp_def json_Marshal_def split: option.splits)
  qed
qed

lemma world_ok_Transfer:
  assumes "world_ok (world ctx)"
  shows "world_ok (world (snd (TransferOwnership ctx pid newOwner)))"
proof (cases "QueryProduct ctx pid")
  case (Pair res ctx1)
  have c1: "ctx1 = ctx" using Pair by (auto simp: QueryProduct_def split: sum.splits option.splits)
  show ?thesis
  proof (cases res)
    case (Inl e)
    with Pair c1 assms show ?thesis
      by (auto simp: TransferOwnership_def getTimestamp_def split: option.splits)
  next
    case (Inr asset)
    from QueryProduct_ok[OF assms Pair[unfolded Inr]]
    have a: "Status asset \<noteq> []" "ID asset = coerce_utf8 pid" by simp_all
    have "record_ok pid (encode_Product (asset\<lparr>Owner := newOwner, UpdatedAt := t\<rparr>))" for t
      by (rule record_ok_encode) (simp_all add: a coerce_utf8_idem)
    from world_ok_PutState[OF assms this] Pair Inr c1 assms show ?thesis
      by (auto simp: TransferOwnership_def getTimestamp_def json_Marshal_def split: option.splits)
  qed
qed

lemma world_ok_put_assets:
  assumes "world_ok (world ctx)" and "\<forall>a\<in>set as. Status a \<noteq> []"
  shows "world_ok (world (snd (put_assets as ctx)))"
  using assms
proof (induction as arbitrary: ctx)
  case Nil
  then show ?case by simp
next
  case (Cons a as)
  have r: "record_ok (ID a) (encode_Product a)"
    using Cons.prems(2) by (intro record_ok_encode) simp_all
  note step = world_ok_PutState[OF Cons.prems(1) r]
  show ?case
  proof (cases "PutState ctx (ID a) (encode_Product a)")
    case (Pair res ctx')
    with step Cons.IH[of ctx'] Cons.prems(2) show ?thesis
      by (cases res) (simp_all add: json_Marshal_def)
  qed
qed

lemma world_ok_InitLedger:
  assumes "world_ok (world ctx)"
  shows "world_ok (world (snd (InitLedger ctx)))"
  using assms world_ok_put_assets[OF assms, of "seed_assets t" for t]
  by (auto simp: InitLedger_def getTimestamp_def seed_assets_def split: option.splits)

lemma world_ok_apply_call:
  assumes "world_ok (world ctx)"
  shows "world_ok (world (snd (apply_call ctx c)))"
  using assms
  by (cases c) (simp_all add: world_ok_Create world_ok_InitLedger world_ok_Update world_ok_Transfer)

lemma world_ok_run: "world_ok w \<Longrightarrow> world_ok (run calls w)"
proof (induction calls arbitrary: w)
  case Nil
  then show ?case by simp
next
  case (Cons x calls)
  obtain env c where x: "x = (env, c)" by (cases x)
  have "world_ok (world (env\<lparr>world := w\<rparr>))" using Cons.prems by simp
  from world_ok_apply_call[OF this, of c] Cons.IH Cons.prems show ?case
    by (auto simp: x split: prod.splits sum.splits)
qed

subsection \<open>Keys of the world state\<close>

text \<open>
  When the store of every transaction rejects a write under the empty key, the empty key is
  never stored.
\<close>

lemma keys_PutState:
  assumes "[] \<notin> fst ` set (world ctx)" and "\<forall>x. put_fails ctx [] x"
  shows "[] \<notin> fst ` set (world (snd (PutState ctx k v)))"
  using assms by (cases "k = []") (simp_all add: PutState_def dom_update)

lemma put_fails_PutState: "put_fails (snd (PutState ctx k v)) = put_fails ctx"
  by (simp add: PutState_def)

lemma keys_put_assets:
  assumes "[] \<notin> fst ` set (world ctx)" and "\<forall>x. put_fails ctx [] x"
  shows "[] \<notin> fst ` set (world (snd (put_assets as ctx)))"
  using assms
proof (induction as arbitrary: ctx)
  case Nil
  then show ?case by simp
next
  case (Cons a as)
  note step = keys_PutState[OF Cons.prems, of "ID a" "encode_Product a"]
  have pf: "\<forall>x. put_fails (snd (PutState ctx (ID a) (encode_Product a))) [] x"
    using Cons.prems(2) by (simp add: put_fails_PutState)
  show ?case
  proof (cases "PutState ctx (ID a) (encode_Product a)")
    case (Pair res ctx')
    with step pf Cons.IH[of ctx'] show ?thesis
      by (cases res) (simp_all add: json_Marshal_def)
  qed
qed

lemma keys_apply_call:
  assumes "[] \<notin> fst ` set (world ctx)" and "\<forall>x. put_fails ctx [] x"
  shows "[] \<notin> fst ` set (world (snd (apply_call ctx c)))"
proof (cases c)
  case (Create pid name owner description category)
  show ?thesis
    using assms keys_PutState[OF assms] unfolding Create
    by (auto simp: CreateProduct_def getTimestamp_def ProductExists_def json_Marshal_def Let_def
        split: option.splits sum.splits prod.splits)
next
  case Seed
  show ?thesis
    using assms keys_put_assets[OF assms] unfolding Seed
    by (auto simp: InitLedger_def getTimestamp_def split: option.splits sum.splits prod.splits)
next
  case (Update pid newStatus newOwner newDescription newCategory)
  show ?thesis
    using assms keys_PutState[OF assms] unfolding Update
    by (auto simp: UpdateProduct_def getTimestamp_def QueryProduct_def json_Marshal_def
        split: option.splits sum.splits prod.splits)
next
  case (Transfer pid newOwner)
  show ?thesis
    using assms keys_PutState[OF assms] unfolding Transfer
    by (auto simp: TransferOwnership_def getTimestamp_def QueryProduct_def json_Marshal_def
        split: option.splits sum.splits prod.splits)
qed

lemma keys_run:
  assumes "[] \<notin> fst ` set w" and "\<forall>(env, c) \<in> set calls. \<forall>x. put_fails env [] x"
  shows "[] \<notin> fst ` set (run calls w)"
  using assms
proof (induction calls arbitrary: w)
  case Nil
  then show ?case by simp
next
  case (Cons x calls)
  obtain env c where x: "x = (env, c)" by (cases x)
  have a: "[] \<notin> fst ` set (world (env\<lparr>world := w\<rparr>))" using Cons.prems(1) by simp
  have b: "\<forall>x. put_fails (env\<lparr>world := w\<rparr>) [] x" using Cons.prems(2) by (simp add: x)
  have r: "\<forall>(env, c) \<in> set calls. \<forall>x. put_fails env [] x" using Cons.prems(2) by simp
  note k = keys_apply_call[OF a b, of c]
  show ?case
  proof (cases "apply_call (env\<lparr>world := w\<rparr>) c")
    case (Pair res ctx')
    show ?thesis
    proof (cases res)
      case (Inl e)
      with Pair x Cons.IH[OF Cons.prems(1) r] show ?thesis by simp
    next
      case (Inr u)
      from k Pair have "[] \<notin> fst ` set (world ctx')" by simp
      from Cons.IH[OF this r] Pair Inr x show ?thesis by simp
    qed
  qed
qed

subsection \<open>The invariant of the stored records\<close>

text \<open>
  Claim C6, amended. After any sequence of create, seed, update and transfer transactions from
  the empty world state, every stored value decodes to a product whose status is non-empty
  and whose id is the key it is stored under (as the encoding stores it), so the id is empty
  exactly when the key is. When the store of every transaction rejects a write under the
  empty key, the id is never empty. Nothing holds of name and owner.
\<close>

theorem stored_records_invariant:
  assumes "(k, v) \<in> set (run calls [])"
  shows "\<exists>p. json_Unmarshal v = Inr p \<and> Status p \<noteq> [] \<and> ID p = coerce_utf8 k
    \<and> (ID p = [] \<longleftrightarrow> k = [])
    \<and> ((\<forall>(env, c) \<in> set calls. \<forall>x. put_fails env [] x) \<longrightarrow> ID p \<noteq> [])"
proof -
  have "world_ok (run calls [])" by (rule world_ok_run) (simp add: world_ok_def)
  with assms have "record_ok k v" by (auto simp: world_ok_def list_all_iff)
  then obtain p where p: "json_Unmarshal v = Inr p" "Status p \<noteq> []" "ID p = coerce_utf8 k"
    by (auto simp: record_ok_def split: sum.splits)
  have e: "ID p = [] \<longleftrightarrow> k = []" using p(3) by (simp add: coerce_utf8_Nil_iff)
  have "k \<noteq> []" if "\<forall>(env, c) \<in> set calls. \<forall>x. put_fails env [] x"
  proof -
    have "[] \<notin> fst ` set (run calls [])" by (rule keys_run[OF _ that]) simp
    with assms show ?thesis by force
  qed
  with p e show ?thesis by blast
qed

lemma run_create_example:
  "run [(example_stub [], Create ''p1'' ''Laptop'' ''CompanyA'' ''High-end gaming laptop'' ''Electronics'')] []
    = [(''p1'', encode_Product example_product)]"
proof -
  have P: "example_product =
      \<lparr>ID = ''p1'', Name = ''Laptop'', Status = ''Manufactured'', Owner = ''CompanyA'',
       CreatedAt = rfc3339 (example_stub []) 1700000000 0,
       UpdatedAt = rfc3339 (example_stub []) 1700000000 0,
       Description = ''High-end gaming laptop'', Category = ''Electronics''\<rparr>"
    by (simp add: example_product_def example_stub_simps)
  have "CreateProduct (example_stub []) ''p1'' ''Laptop'' ''CompanyA'' ''High-end gaming laptop''
      ''Electronics'' = (Inr (), example_stub [(''p1'', encode_Product example_product)])"
    using create_then_query(1)[of "example_stub []" 1700000000 0 "''p1''" example_product, OF _ _ _ P]
    by (simp add: example_stub_simps GetState_def)
  then show ?thesis by (simp add: example_stub_simps)
qed

lemma run_create_empty:
  "run [(example_stub [], Create ''p1'' [] [] [] [])] []
    = [(''p1'', encode_Product \<lparr>ID = ''p1'', Name = [], Status = ''Manufactured'', Owner = [],
         CreatedAt = ''2023-11-14T22:13:20Z'', UpdatedAt = ''2023-11-14T22:13:20Z'',
         Description = [], Category = []\<rparr>)]"
proof -
  let ?P = "\<lparr>ID = ''p1'', Name = [], Status = ''Manufactured'', Owner = [],
         CreatedAt = ''2023-11-14T22:13:20Z'', UpdatedAt = ''2023-11-14T22:13:20Z'',
         Description = [], Category = []\<rparr>"
  have P: "?P = \<lparr>ID = ''p1'', Name = [], Status = ''Manufactured'', Owner = [],
       CreatedAt = rfc3339 (example_stub []) 1700000000 0,
       UpdatedAt = rfc3339 (example_stub []) 1700000000 0,
       Description = [], Category = []\<rparr>"
    by (simp add: example_stub_simps)
  have "CreateProduct (example_stub []) ''p1'' [] [] [] [] = (Inr (), example_stub [(''p1'', encode_Product ?P)])"
    using create_then_query(1)[of "example_stub []" 1700000000 0 "''p1''" ?P, OF _ _ _ P]
    by (simp add: example_stub_simps GetState_def)
  then show ?thesis by (simp add: example_stub_simps)
qed

lemma run_transfer_empty:
  "run [(example_stub [], Create ''p1'' ''Laptop'' ''CompanyA'' ''High-end gaming laptop'' ''Electronics''),
        (example_stub [], Transfer ''p1'' [])] []
    = [(''p1'', encode_Product (example_product\<lparr>Owner := []\<rparr>))]"
proof -
  have u: "example_product\<lparr>Owner := [], UpdatedAt := ''2023-11-14T22:13:20Z''\<rparr>
      = example_product\<lparr>Owner := []\<rparr>"
    by (simp add: example_product_def)
  have "TransferOwnership (example_stub [(''p1'', encode_Product example_product)]) ''p1'' []
      = (Inr (), example_stub [(''p1'', encode_Product (example_product\<lparr>Owner := []\<rparr>))])"
    using TransferOwnership_result[OF _ query_example, of 1700000000 0 "[]"]
    by (simp add: example_stub_simps u)
  moreover have "run [(example_stub [], Create ''p1'' ''Laptop'' ''CompanyA'' ''High-end gaming laptop'' ''Electronics''),
        (example_stub [], Transfer ''p1'' [])] []
      = run [(example_stub [], Transfer ''p1'' [])] [(''p1'', encode_Product example_product)]"
    using run_create_example by (simp split: prod.splits sum.splits)
  ultimately show ?thesis by (simp add: example_stub_simps)
qed

lemma run_create_strict:
  "run [((example_stub [])\<lparr>put_fails := (\<lambda>k v. k = [])\<rparr>,
         Create ''p1'' ''Laptop'' ''CompanyA'' ''High-end gaming laptop'' ''Electronics'')] []
    = [(''p1'', encode_Product example_product)]"
proof -
  let ?env = "(example_stub [])\<lparr>put_fails := (\<lambda>k v. k = [])\<rparr>"
  have P: "example_product =
      \<lparr>ID = ''p1'', Name = ''Laptop'', Status = ''Manufactured'', Owner = ''CompanyA'',
       CreatedAt = rfc3339 (?env\<lparr>world := []\<rparr>) 1700000000 0,
       UpdatedAt = rfc3339 (?env\<lparr>world := []\<rparr>) 1700000000 0,
       Description = ''High-end gaming laptop'', Category = ''Electronics''\<rparr>"
    by (simp add: example_product_def example_stub_def)
  have "CreateProduct (?env\<lparr>world := []\<rparr>) ''p1'' ''Laptop'' ''CompanyA'' ''High-end gaming laptop''
      ''Electronics''
      = (Inr (), ?env\<lparr>world := []\<rparr>\<lparr>world := AList.update ''p1'' (encode_Product example_product)
           (world (?env\<lparr>world := []\<rparr>))\<rparr>)"
    by (rule create_then_query(1)[OF _ _ _ P]) (simp_all add: example_stub_def GetState_def)
  then show ?thesis by simp
qed

lemma run_create_empty_id:
  "run [(example_stub [], Create [] ''Laptop'' ''CompanyA'' ''High-end gaming laptop'' ''Electronics'')] []
    = [([], encode_Product (example_product\<lparr>ID := []\<rparr>))]"
proof -
  have P: "example_product\<lparr>ID := []\<rparr> =
      \<lparr>ID = [], Name = ''Laptop'', Status = ''Manufactured'', Owner = ''CompanyA'',
       CreatedAt = rfc3339 (example_stub []) 1700000000 0,
       UpdatedAt = rfc3339 (example_stub []) 1700000000 0,
       Description = ''High-end gaming laptop'', Category = ''Electronics''\<rparr>"
    by (simp add: example_product_def example_stub_simps)
  have "CreateProduct (example_stub []) [] ''Laptop'' ''CompanyA'' ''High-end gaming laptop''
      ''Electronics'' = (Inr (), example_stub [([], encode_Product (example_product\<lparr>ID := []\<rparr>))])"
    using create_then_query(1)[of "example_stub []" 1700000000 0 "[]" "example_product\<lparr>ID := []\<rparr>",
        OF _ _ _ P]
    by (simp add: example_stub_simps GetState_def)
  then show ?thesis by (simp add: example_stub_simps)
qed

theorem stored_records_invariant_witness:
  "(''p1'', encode_Product example_product)
      \<in> set (run [((example_stub [])\<lparr>put_fails := (\<lambda>k v. k = [])\<rparr>,
                    Create ''p1'' ''Laptop'' ''CompanyA'' ''High-end gaming laptop'' ''Electronics'')] [])
   \<and> (\<forall>x. put_fails ((example_stub [])\<lparr>put_fails := (\<lambda>k v. k = [])\<rparr>) [] x)
   \<and> json_Unmarshal (encode_Product example_product) = Inr example_product
   \<and> Status example_product \<noteq> [] \<and> ID example_product = coerce_utf8 ''p1''
   \<and> ID example_product \<noteq> []"
proof -
  let ?calls = "[((example_stub [])\<lparr>put_fails := (\<lambda>k v. k = [])\<rparr>,
                    Create ''p1'' ''Laptop'' ''CompanyA'' ''High-end gaming laptop'' ''Electronics'')]"
  have m: "(''p1'', encode_Product example_product) \<in> set (run ?calls [])"
    by (simp add: run_create_strict del: run.simps)
  have s: "\<forall>(env, c) \<in> set ?calls. \<forall>x. put_fails env [] x" by simp
  from stored_records_invariant[OF m] s show ?thesis
    using m by (auto simp: Unmarshal_examples simp del: run.simps)
qed

text \<open>
  The claim as stated fails for name and owner: a product created with empty name and owner
  is stored with them empty, and a transfer to the empty owner stores the empty owner. It
  fails for the id when the store accepts a write under the empty key: the product created
  with the empty id is stored with it.
\<close>

theorem empty_fields_counterexample:
  "(''p1'', encode_Product \<lparr>ID = ''p1'', Name = [], Status = ''Manufactured'', Owner = [],
         CreatedAt = ''2023-11-14T22:13:20Z'', UpdatedAt = ''2023-11-14T22:13:20Z'',
         Description = [], Category = []\<rparr>)
      \<in> set (run [(example_stub [], Create ''p1'' [] [] [] [])] [])
   \<and> json_Unmarshal (encode_Product \<lparr>ID = ''p1'', Name = [], Status = ''Manufactured'', Owner = [],
         CreatedAt = ''2023-11-14T22:13:20Z'', UpdatedAt = ''2023-11-14T22:13:20Z'',
         Description = [], Category = []\<rparr>)
      = Inr \<lparr>ID = ''p1'', Name = [], Status = ''Manufactured'', Owner = [],
         CreatedAt = ''2023-11-14T22:13:20Z'', UpdatedAt = ''2023-11-14T22:13:20Z'',
         Description = [], Category = []\<rparr>
   \<and> (''p1'', encode_Product (example_product\<lparr>Owner := []\<rparr>))
      \<in> set (run [(example_stub [], Create ''p1'' ''Laptop'' ''CompanyA''
                     ''High-end gaming laptop'' ''Electronics''),
                   (example_stub [], Transfer ''p1'' [])] [])
   \<and> json_Unmarshal (encode_Product (example_product\<lparr>Owner := []\<rparr>))
      = Inr (example_product\<lparr>Owner := []\<rparr>)
   \<and> Owner (example_product\<lparr>Owner := []\<rparr>) = []
   \<and> ([], encode_Product (example_product\<lparr>ID := []\<rparr>))
      \<in> set (run [(example_stub [], Create [] ''Laptop'' ''CompanyA''
                     ''High-end gaming laptop'' ''Electronics'')] [])
   \<and> json_Unmarshal (encode_Product (example_product\<lparr>ID := []\<rparr>))
      = Inr (example_product\<lparr>ID := []\<rparr>)
   \<and> ID (example_product\<lparr>ID := []\<rparr>) = []"
  by (simp add: run_create_empty run_transfer_empty run_create_empty_id Unmarshal_Marshal
      coerce_Product_def del: run.simps)
     (simp add: example_product_def coerce_step_def)

end
